theory Spec2Isabelle
  imports Complex_Main
begin

section \<open>Strings of the registry client\<close>

text \<open>
  A well-formed JavaScript string is modelled by the list of its UTF-8 bytes (\<open>string\<close>),
  which is what \<open>encodeURIComponent\<close> escapes and what the store keeps. The strings of the
  records of the catalogue and of the store are well formed. An argument that a caller
  passes may also be a string with a lone surrogate, which has no UTF-8 form.
\<close>

datatype js_string = Well_formed string | Ill_formed

definition API_BASE :: string where
  "API_BASE = ''https://packages.ecosyste.ms/api/v1''"

definition PER_PAGE :: nat where
  "PER_PAGE = 1000"

definition RATE_LIMIT_MS :: nat where
  "RATE_LIMIT_MS = 50"


text \<open>Decimal rendering of a non-negative integer, as a template literal prints it.\<close>

definition digits :: string where
  "digits = ''0123456789''"

definition digit_char :: "nat \<Rightarrow> char" where
  "digit_char d = digits ! d"

fun show_nat :: "nat \<Rightarrow> string" where
  "show_nat n = (if n < 10 then [digit_char n] else show_nat (n div 10) @ [digit_char (n mod 10)])"

declare show_nat.simps [simp del]

text \<open>
  \<open>String.prototype.toLowerCase\<close> on the bytes: an ASCII capital becomes its small
  letter, and the Kelvin sign (U+212A, bytes E2 84 AA) becomes \<open>k\<close>. These are the only
  characters whose lower-case form is ASCII. Every other byte is kept: a string holding one
  can equal no key of the table below before or after case folding, the keys being ASCII.
\<close>

definition upper_letters :: string where
  "upper_letters = ''ABCDEFGHIJKLMNOPQRSTUVWXYZ''"

definition lower_letters :: string where
  "lower_letters = ''abcdefghijklmnopqrstuvwxyz''"

definition lower_char :: "char \<Rightarrow> char" where
  "lower_char c = (case map_of (zip upper_letters lower_letters) c of Some l \<Rightarrow> l | None \<Rightarrow> c)"

fun toLowerCase :: "string \<Rightarrow> string" where
  "toLowerCase [] = []"
| "toLowerCase (c # cs) =
     (if c = CHR 0xE2 \<and> take 2 cs = [CHR 0x84, CHR 0xAA]
      then CHR ''k'' # toLowerCase (drop 2 cs)
      else lower_char c # toLowerCase cs)"

text \<open>Percent-encoding: the unreserved characters stay, every other byte becomes \<open>%XX\<close>.\<close>

definition unreserved :: "char \<Rightarrow> bool" where
  "unreserved c = (c \<in> set (upper_letters @ lower_letters @ digits @ ''-_.!~*'()''))"

definition hex_upper :: "nat \<Rightarrow> char" where
  "hex_upper d = ''0123456789ABCDEF'' ! d"

definition percent_encode :: "char \<Rightarrow> string" where
  "percent_encode c =
     (let n = (of_char c :: nat) in
      if unreserved c then [c] else [CHR ''%'', hex_upper (n div 16), hex_upper (n mod 16)])"

section \<open>Registry client\<close>

text \<open>
  The remote API is a function from the URL of a GET request to its outcome: no reply at
  all (network failure), or a reply with its HTTP status and, when the body is JSON, the
  decoded body. The decoded body has the shape the endpoint documents: a list of package
  records for a page of the catalogue, a list of strings for the version numbers.
\<close>

datatype 'a reply = No_reply | Reply nat "'a option"

datatype transport_error = Network_failure | Http_error nat string | Decode_error

text \<open>The exceptions of the pipeline: of the transport, of the language and of the store.\<close>

datatype exn = Transport transport_error | URI_error | Type_error | Foreign_key_failed

text \<open>What the client does to the outside, in order.\<close>

datatype event = Request string | Sleep nat | Concurrent "event list list"

definition response_ok :: "nat \<Rightarrow> bool" where
  "response_ok status = (200 \<le> status \<and> status \<le> 299)"

definition fetchJson :: "(string \<Rightarrow> 'a reply) \<Rightarrow> string \<Rightarrow> transport_error + 'a" where
  "fetchJson remote url =
     (case remote url of
        No_reply \<Rightarrow> Inl Network_failure
      | Reply status body \<Rightarrow>
          if \<not> response_ok status then Inl (Http_error status url)
          else (case body of None \<Rightarrow> Inl Decode_error | Some v \<Rightarrow> Inr v))"

subsection \<open>Ecosystem to registry\<close>

text \<open>
  The table is an object literal, so a property read \<open>map[key]\<close> that finds no own property
  goes on to \<open>Object.prototype\<close>. The value read is a registry name, \<open>undefined\<close>, or a
  member of the prototype.
\<close>

datatype js_value = Undefined | Null | Str string | Inherited string

definition registry_map :: "(string \<times> string) list" where
  "registry_map =
     [(''npm'', ''npmjs.org''),
      (''pypi'', ''pypi.org''),
      (''rubygems'', ''rubygems.org''),
      (''go'', ''proxy.golang.org''),
      (''cargo'', ''crates.io''),
      (''maven'', ''repo1.maven.org''),
      (''nuget'', ''nuget.org''),
      (''packagist'', ''packagist.org''),
      (''hex'', ''hex.pm''),
      (''pub'', ''pub.dev''),
      (''hackage'', ''hackage.haskell.org''),
      (''cocoapods'', ''cocoapods.org''),
      (''conda'', ''anaconda.org''),
      (''clojars'', ''clojars.org''),
      (''puppet'', ''forge.puppet.com''),
      (''homebrew'', ''formulae.brew.sh'')]"

definition Object_prototype :: "string list" where
  "Object_prototype =
     [''constructor'', ''__defineGetter__'', ''__defineSetter__'', ''hasOwnProperty'',
      ''__lookupGetter__'', ''__lookupSetter__'', ''isPrototypeOf'', ''propertyIsEnumerable'',
      ''toString'', ''valueOf'', ''__proto__'', ''toLocaleString'']"

definition get_property :: "(string \<times> string) list \<Rightarrow> string \<Rightarrow> js_value" where
  "get_property obj key =
     (case map_of obj key of
        Some v \<Rightarrow> Str v
      | None \<Rightarrow> if key \<in> set Object_prototype then Inherited key else Undefined)"

fun truthy :: "js_value \<Rightarrow> bool" where
  "truthy Undefined = False"
| "truthy Null = False"
| "truthy (Str s) = (s \<noteq> [])"
| "truthy (Inherited k) = True"

text \<open>How a template literal prints the value.\<close>

fun to_string :: "js_value \<Rightarrow> string" where
  "to_string Undefined = ''undefined''"
| "to_string Null = ''null''"
| "to_string (Str s) = s"
| "to_string (Inherited k) =
     (if k = ''__proto__'' then ''[object Object]''
      else ''function '' @ (if k = ''constructor'' then ''Object'' else k) @ ''() { [native code] }'')"

definition ecosystemToRegistry :: "string \<Rightarrow> js_value" where
  "ecosystemToRegistry ecosystem =
     (let v = get_property registry_map (toLowerCase ecosystem)
      in if truthy v then v else Null)"

subsection \<open>Version numbers of one package\<close>

definition versions_url :: "string \<Rightarrow> string \<Rightarrow> string" where
  "versions_url registry encodedName =
     API_BASE @ ''/registries/'' @ registry @ ''/packages/'' @ encodedName @ ''/version_numbers''"

text \<open>
  \<open>encodeURIComponent\<close> percent-encodes the UTF-8 bytes of a well-formed string and throws
  \<open>URIError\<close> on a string with a lone surrogate.
\<close>

fun encodeURIComponent :: "js_string \<Rightarrow> exn + string" where
  "encodeURIComponent (Well_formed s) = Inr (concat (map percent_encode s))"
| "encodeURIComponent Ill_formed = Inl URI_error"

text \<open>
  The result is the value returned or the exception thrown, with the requests issued.
  \<open>ecosystemToRegistry\<close> and \<open>encodeURIComponent\<close> run before the \<open>try\<close>; the \<open>catch\<close> turns
  every failure of \<open>fetchJson\<close> into the empty list.
\<close>

definition fetchVersionNumbers ::
  "(string \<Rightarrow> string list reply) \<Rightarrow> string \<Rightarrow> js_string \<Rightarrow> (exn + string list) \<times> event list" where
  "fetchVersionNumbers remote ecosystem name =
     (let registry = ecosystemToRegistry ecosystem in
      if \<not> truthy registry then (Inr [], [])
      else
        (case encodeURIComponent name of
           Inl err \<Rightarrow> (Inl err, [])
         | Inr encodedName \<Rightarrow>
             let url = versions_url (to_string registry) encodedName
             in (case fetchJson remote url of
                   Inr v \<Rightarrow> (Inr v, [Request url])
                 | Inl err \<Rightarrow> (Inr [], [Request url]))))"

section \<open>Paginator\<close>

definition critical_url :: "nat \<Rightarrow> string" where
  "critical_url page =
     API_BASE @ ''/packages/critical?per_page='' @ show_nat PER_PAGE @ ''&page='' @ show_nat page"

text \<open>
  The \<open>while (true)\<close> loop of \<open>fetchAllCriticalPackages\<close>, with the list collected so far,
  the page number and the events so far. It need not end: a run that never ends is \<open>None\<close>.
  Progress messages are output only and are left out.
\<close>

partial_function (option) fetch_loop ::
  "(string \<Rightarrow> 'p list reply) \<Rightarrow> 'p list \<Rightarrow> nat \<Rightarrow> event list
     \<Rightarrow> ((transport_error + 'p list) \<times> event list) option" where
  "fetch_loop remote packages page trace =
     (let url = critical_url page;
          trace1 = trace @ [Request url]
      in case fetchJson remote url of
           Inl err \<Rightarrow> Some (Inl err, trace1)
         | Inr batch \<Rightarrow>
             if length batch = 0 then Some (Inr packages, trace1)
             else fetch_loop remote (packages @ batch) (page + 1) (trace1 @ [Sleep RATE_LIMIT_MS]))"

definition fetchAllCriticalPackages ::
  "(string \<Rightarrow> 'p list reply) \<Rightarrow> ((transport_error + 'p list) \<times> event list) option" where
  "fetchAllCriticalPackages remote = fetch_loop remote [] 1 []"

section \<open>Records of the catalogue\<close>

text \<open>
  The records decoded from the API, field by field as the pipeline reads them. A field that
  may be \<open>null\<close> or missing is an \<open>option\<close>; the identity of a package (its numeric id, its
  ecosystem and its name, the \<open>NOT NULL\<close> columns) is always there. An entry of the advisory
  list may itself be \<open>null\<close>.
\<close>

record advisory =
  adv_uuid :: "string option"
  adv_url :: "string option"
  adv_title :: "string option"
  adv_description :: "string option"
  adv_severity :: "string option"
  adv_published_at :: "string option"
  adv_cvss_score :: "rat option"

record repo =
  repo_owner :: "string option"
  repo_name :: "string option"
  repo_full_name :: "string option"
  repo_language :: "string option"
  repo_stargazers_count :: "int option"
  repo_forks_count :: "int option"
  repo_open_issues_count :: "int option"
  repo_archived :: "bool option"
  repo_fork :: "bool option"

record host =
  host_name :: "string option"

text \<open>
  \<open>JSON.stringify\<close> tells a missing list (\<open>undefined\<close>, bound as \<open>NULL\<close>) from \<open>null\<close>
  (the text \<open>null\<close>), so the field keeps the three cases apart.
\<close>

datatype licenses_field = No_licenses | Null_licenses | Licenses "string list"

record pkg =
  pkg_id :: int
  pkg_ecosystem :: string
  pkg_name :: string
  pkg_purl :: "string option"
  pkg_namespace :: "string option"
  pkg_description :: "string option"
  pkg_homepage :: "string option"
  pkg_repository_url :: "string option"
  pkg_licenses :: "string option"
  pkg_normalized_licenses :: licenses_field
  pkg_latest_release_number :: "string option"
  pkg_versions_count :: "int option"
  pkg_downloads :: "int option"
  pkg_downloads_period :: "string option"
  pkg_dependent_packages_count :: "int option"
  pkg_dependent_repos_count :: "int option"
  pkg_first_release_published_at :: "string option"
  pkg_latest_release_published_at :: "string option"
  pkg_last_synced_at :: "string option"
  pkg_keywords_array :: "string list option"
  pkg_repo_metadata :: "repo option"
  pkg_host :: "host option"
  pkg_advisories :: "advisory option list option"

subsection \<open>Serialising\<close>

text \<open>\<open>Array.prototype.join\<close> on a list of strings.\<close>

fun join :: "string \<Rightarrow> string list \<Rightarrow> string" where
  "join sep [] = []"
| "join sep [x] = x"
| "join sep (x # y # ys) = x @ sep @ join sep (y # ys)"

text \<open>
  \<open>JSON.stringify\<close> on a list of strings: each is quoted, with the quote, the backslash and
  the control characters escaped.
\<close>

definition hex_lower :: "nat \<Rightarrow> char" where
  "hex_lower d = ''0123456789abcdef'' ! d"

definition json_escape :: "char \<Rightarrow> string" where
  "json_escape c =
     (let n = (of_char c :: nat) in
      if c = CHR 0x22 then [CHR 0x5C, CHR 0x22]
      else if c = CHR 0x5C then [CHR 0x5C, CHR 0x5C]
      else if c = CHR 0x08 then [CHR 0x5C, CHR ''b'']
      else if c = CHR 0x0C then [CHR 0x5C, CHR ''f'']
      else if c = CHR 0x0A then [CHR 0x5C, CHR ''n'']
      else if c = CHR 0x0D then [CHR 0x5C, CHR ''r'']
      else if c = CHR 0x09 then [CHR 0x5C, CHR ''t'']
      else if n < 32 then [CHR 0x5C, CHR ''u'', CHR ''0'', CHR ''0'', hex_lower (n div 16), hex_lower (n mod 16)]
      else [c])"

definition json_quote :: "string \<Rightarrow> string" where
  "json_quote s = [CHR 0x22] @ concat (map json_escape s) @ [CHR 0x22]"

fun JSON_stringify :: "licenses_field \<Rightarrow> string option" where
  "JSON_stringify No_licenses = None"
| "JSON_stringify Null_licenses = Some ''null''"
| "JSON_stringify (Licenses xs) = Some (''['' @ join '','' (map json_quote xs) @ '']'')"

section \<open>The store\<close>

text \<open>
  The tables of \<open>createDatabase\<close>, each a list of rows in the order of insertion. A column
  declared \<open>NOT NULL\<close> holds a value, any other an \<open>option\<close>.
\<close>

record package_row =
  row_id :: int
  row_ecosystem :: string
  row_name :: string
  row_purl :: "string option"
  row_namespace :: "string option"
  row_description :: "string option"
  row_homepage :: "string option"
  row_repository_url :: "string option"
  row_licenses :: "string option"
  row_normalized_licenses :: "string option"
  row_latest_version :: "string option"
  row_versions_count :: "int option"
  row_downloads :: "int option"
  row_downloads_period :: "string option"
  row_dependent_packages_count :: "int option"
  row_dependent_repos_count :: "int option"
  row_first_release_at :: "string option"
  row_latest_release_at :: "string option"
  row_last_synced_at :: "string option"
  row_keywords :: "string option"
  row_created_at :: "string option"

record version_row =
  ver_package_id :: int
  ver_number :: string

record advisory_row =
  advr_id :: nat
  advr_package_id :: int
  advr_uuid :: string
  advr_url :: "string option"
  advr_title :: "string option"
  advr_description :: "string option"
  advr_severity :: "string option"
  advr_published_at :: "string option"
  advr_cvss_score :: "rat option"

record repo_metadata_row =
  rm_package_id :: int
  rm_owner :: "string option"
  rm_repo_name :: "string option"
  rm_full_name :: "string option"
  rm_host :: "string option"
  rm_language :: "string option"
  rm_stargazers_count :: "int option"
  rm_forks_count :: "int option"
  rm_open_issues_count :: "int option"
  rm_archived :: "int option"
  rm_fork :: "int option"

record fts_entry =
  fts_rowid :: int
  fts_ecosystem :: string
  fts_name :: string
  fts_description :: "string option"
  fts_keywords :: "string option"

record build_info_row =
  bi_id :: int
  bi_built_at :: string
  bi_package_count :: "nat option"
  bi_version_count :: "nat option"
  bi_advisory_count :: "nat option"

text \<open>The statements run against the store, in order.\<close>

datatype statement =
  Put_package int
| Put_repo_metadata int
| Put_advisory int string
| Put_version int string
| Put_build_info

text \<open>
  Besides the tables the store has the counter of the \<open>AUTOINCREMENT\<close> key of advisories and
  the setting \<open>recursive_triggers\<close> of the connection.
\<close>

record db =
  packages :: "package_row list"
  versions :: "version_row list"
  advisories :: "advisory_row list"
  repo_metadata :: "repo_metadata_row list"
  packages_fts :: "fts_entry list"
  build_info :: "build_info_row list"
  advisories_sequence :: nat
  recursive_triggers :: bool
  journal :: "statement list"

text \<open>
  \<open>createDatabase\<close> runs on a file that \<open>build\<close> has just removed, so every table starts
  empty. The one pragma issued is \<open>journal_mode\<close>; \<open>recursive_triggers\<close> keeps the default
  of SQLite, off.
\<close>

definition createDatabase :: db where
  "createDatabase =
     \<lparr>packages = [], versions = [], advisories = [], repo_metadata = [], packages_fts = [],
      build_info = [], advisories_sequence = 0, recursive_triggers = False, journal = []\<rparr>"

subsection \<open>The full-text index and its triggers\<close>

text \<open>
  \<open>packages_fts\<close> is an external-content FTS5 table: an entry is added by an insert into it
  and taken out by its \<open>'delete'\<close> command, which must be given the values that were indexed.
\<close>

definition fts_entry_of :: "package_row \<Rightarrow> fts_entry" where
  "fts_entry_of r =
     \<lparr>fts_rowid = row_id r, fts_ecosystem = row_ecosystem r, fts_name = row_name r,
      fts_description = row_description r, fts_keywords = row_keywords r\<rparr>"

definition packages_ai :: "package_row \<Rightarrow> fts_entry list \<Rightarrow> fts_entry list" where
  "packages_ai new fts = fts @ [fts_entry_of new]"

definition packages_ad :: "package_row \<Rightarrow> fts_entry list \<Rightarrow> fts_entry list" where
  "packages_ad old fts = remove1 (fts_entry_of old) fts"

definition packages_au :: "package_row \<Rightarrow> package_row \<Rightarrow> fts_entry list \<Rightarrow> fts_entry list" where
  "packages_au old new fts = packages_ai new (packages_ad old fts)"

text \<open>
  The default tokenizer on ASCII text: a token is a maximal run of letters and digits, folded
  to lower case. Bytes outside ASCII count as letters.
\<close>

definition token_char :: "char \<Rightarrow> bool" where
  "token_char c = (c \<in> set (upper_letters @ lower_letters @ digits) \<or> (128::nat) \<le> of_char c)"

fun tokens_from :: "string \<Rightarrow> string \<Rightarrow> string list" where
  "tokens_from cur [] = (if cur = [] then [] else [cur])"
| "tokens_from cur (c # cs) =
     (if token_char c then tokens_from (cur @ [lower_char c]) cs
      else (if cur = [] then [] else [cur]) @ tokens_from [] cs)"

definition tokenize :: "string \<Rightarrow> string list" where
  "tokenize s = tokens_from [] s"

definition entry_tokens :: "fts_entry \<Rightarrow> string list" where
  "entry_tokens e =
     tokenize (fts_ecosystem e) @ tokenize (fts_name e) @
     (case fts_description e of None \<Rightarrow> [] | Some s \<Rightarrow> tokenize s) @
     (case fts_keywords e of None \<Rightarrow> [] | Some s \<Rightarrow> tokenize s)"

text \<open>
  The query of the test suite,
  \<open>SELECT p.* FROM packages p JOIN packages_fts fts ON p.id = fts.rowid WHERE packages_fts MATCH ?\<close>,
  for a query that is one token as the tokenizer yields it (a lower-case ASCII word). A row
  is listed for each entry of the index that holds the token under its rowid.
\<close>

definition search :: "db \<Rightarrow> string \<Rightarrow> package_row list" where
  "search d token =
     concat (map (\<lambda>e. if token \<in> set (entry_tokens e)
                        then filter (\<lambda>p. row_id p = fts_rowid e) (packages d) else [])
                 (packages_fts d))"

text \<open>\<open>SELECT * FROM packages WHERE ecosystem = ? AND name = ?\<close>, first row.\<close>

definition lookup :: "db \<Rightarrow> string \<Rightarrow> string \<Rightarrow> package_row option" where
  "lookup d ecosystem name =
     find (\<lambda>r. row_ecosystem r = ecosystem \<and> row_name r = name) (packages d)"

text \<open>\<open>SELECT * FROM advisories WHERE package_id = ?\<close>.\<close>

definition advisories_of :: "db \<Rightarrow> int \<Rightarrow> advisory_row list" where
  "advisories_of d packageId = filter (\<lambda>r. advr_package_id r = packageId) (advisories d)"

section \<open>Upsert engine\<close>

text \<open>
  The connection enforces foreign keys (the default of \<open>better-sqlite3\<close>), so a statement
  fails, and changes nothing, when it would leave a row of \<open>versions\<close>, \<open>advisories\<close> or
  \<open>repo_metadata\<close> without the package it refers to.
\<close>

definition has_package :: "db \<Rightarrow> int \<Rightarrow> bool" where
  "has_package d packageId = (packageId \<in> set (map row_id (packages d)))"

definition referenced :: "db \<Rightarrow> int \<Rightarrow> bool" where
  "referenced d packageId =
     (packageId \<in> set (map ver_package_id (versions d)) \<or>
      packageId \<in> set (map advr_package_id (advisories d)) \<or>
      packageId \<in> set (map rm_package_id (repo_metadata d)))"

text \<open>
  \<open>INSERT OR REPLACE\<close> into \<open>packages\<close>: the rows that hold the new primary key, or the new
  pair of the unique index on (ecosystem, name), are deleted, then the row is inserted. The
  insert fires \<open>packages_ai\<close>. The deletions fire \<open>packages_ad\<close> only when recursive triggers
  are on (SQLite: "When the REPLACE conflict resolution strategy deletes rows in order to
  satisfy a constraint, delete triggers fire if and only if recursive triggers are enabled").
\<close>

definition conflicts :: "package_row \<Rightarrow> package_row \<Rightarrow> bool" where
  "conflicts new old =
     (row_id old = row_id new \<or> (row_ecosystem old = row_ecosystem new \<and> row_name old = row_name new))"

definition put_package :: "package_row \<Rightarrow> db \<Rightarrow> db" where
  "put_package new d =
     (let deleted = filter (conflicts new) (packages d);
          kept = filter (\<lambda>old. \<not> conflicts new old) (packages d);
          fts1 = (if recursive_triggers d then fold packages_ad deleted (packages_fts d)
                  else packages_fts d)
      in d\<lparr>packages := kept @ [new],
           packages_fts := packages_ai new fts1,
           journal := journal d @ [Put_package (row_id new)]\<rparr>)"

text \<open>
  The statement fails when a row it would delete has another id than the new row and is
  referred to: the new row does not take its place. A deleted row of the same id is no
  failure, the new row stands in for it when the statement ends.
\<close>

definition foreign_key_violated :: "db \<Rightarrow> int \<Rightarrow> string \<Rightarrow> string \<Rightarrow> bool" where
  "foreign_key_violated d packageId ecosystem name =
     list_ex (\<lambda>old. row_id old \<noteq> packageId \<and> row_ecosystem old = ecosystem \<and>
                    row_name old = name \<and> referenced d (row_id old))
       (packages d)"

definition replace_into_packages :: "package_row \<Rightarrow> db \<Rightarrow> exn + db" where
  "replace_into_packages new d =
     (if foreign_key_violated d (row_id new) (row_ecosystem new) (row_name new)
      then Inl Foreign_key_failed
      else Inr (put_package new d))"

text \<open>
  The values that \<open>insertPackage\<close> binds to its statement, column by column; \<open>now\<close> is
  what \<open>CURRENT_TIMESTAMP\<close>, the default of \<open>created_at\<close>, yields when the statement runs.
\<close>

definition package_row_of :: "string \<Rightarrow> pkg \<Rightarrow> package_row" where
  "package_row_of now pkg =
     (let keywords = (case pkg_keywords_array pkg of Some ks \<Rightarrow> Some (join '' '' ks) | None \<Rightarrow> None)
      in \<lparr>row_id = pkg_id pkg,
          row_ecosystem = pkg_ecosystem pkg,
          row_name = pkg_name pkg,
          row_purl = pkg_purl pkg,
          row_namespace = pkg_namespace pkg,
          row_description = pkg_description pkg,
          row_homepage = pkg_homepage pkg,
          row_repository_url = pkg_repository_url pkg,
          row_licenses = pkg_licenses pkg,
          row_normalized_licenses = JSON_stringify (pkg_normalized_licenses pkg),
          row_latest_version = pkg_latest_release_number pkg,
          row_versions_count = pkg_versions_count pkg,
          row_downloads = pkg_downloads pkg,
          row_downloads_period = pkg_downloads_period pkg,
          row_dependent_packages_count = pkg_dependent_packages_count pkg,
          row_dependent_repos_count = pkg_dependent_repos_count pkg,
          row_first_release_at = pkg_first_release_published_at pkg,
          row_latest_release_at = pkg_latest_release_published_at pkg,
          row_last_synced_at = pkg_last_synced_at pkg,
          row_keywords = keywords,
          row_created_at = Some now\<rparr>)"

text \<open>\<open>insertPackage\<close> returns the id of the record, or throws what the statement throws.\<close>

definition insertPackage :: "string \<Rightarrow> db \<Rightarrow> pkg \<Rightarrow> exn + db \<times> int" where
  "insertPackage now d pkg =
     (case replace_into_packages (package_row_of now pkg) d of
        Inl err \<Rightarrow> Inl err
      | Inr d' \<Rightarrow> Inr (d', pkg_id pkg))"




text \<open>
  One \<open>stmt.run\<close> of \<open>insertAdvisories\<close>: the row with the same (package_id, uuid) goes, the
  new row takes the next key of the sequence. It fails when the package has no row.
\<close>

definition put_advisory :: "int \<Rightarrow> string \<Rightarrow> advisory \<Rightarrow> db \<Rightarrow> db" where
  "put_advisory packageId uuid a d =
     (let row = \<lparr>advr_id = Suc (advisories_sequence d),
                 advr_package_id = packageId,
                 advr_uuid = uuid,
                 advr_url = adv_url a,
                 advr_title = adv_title a,
                 advr_description = adv_description a,
                 advr_severity = adv_severity a,
                 advr_published_at = adv_published_at a,
                 advr_cvss_score = adv_cvss_score a\<rparr>
      in d\<lparr>advisories :=
             filter (\<lambda>r. \<not> (advr_package_id r = packageId \<and> advr_uuid r = uuid)) (advisories d) @ [row],
           advisories_sequence := Suc (advisories_sequence d),
           journal := journal d @ [Put_advisory packageId uuid]\<rparr>)"

definition replace_into_advisories :: "int \<Rightarrow> string \<Rightarrow> advisory \<Rightarrow> db \<Rightarrow> exn + db" where
  "replace_into_advisories packageId uuid a d =
     (if has_package d packageId then Inr (put_advisory packageId uuid a d)
      else Inl Foreign_key_failed)"

text \<open>
  The \<open>for\<close> loop; \<open>!advisory || !advisory.uuid\<close> skips \<open>null\<close>, a missing and an empty uuid.
  A statement that throws ends the loop.
\<close>

fun advisories_loop :: "int \<Rightarrow> advisory option list \<Rightarrow> db \<Rightarrow> exn + db" where
  "advisories_loop packageId [] d = Inr d"
| "advisories_loop packageId (advisory # rest) d =
     (case advisory of
        None \<Rightarrow> advisories_loop packageId rest d
      | Some a \<Rightarrow>
          (case adv_uuid a of
             None \<Rightarrow> advisories_loop packageId rest d
           | Some uuid \<Rightarrow>
               if uuid = [] then advisories_loop packageId rest d
               else (case replace_into_advisories packageId uuid a d of
                       Inl err \<Rightarrow> Inl err
                     | Inr d' \<Rightarrow> advisories_loop packageId rest d')))"

definition insertAdvisories :: "db \<Rightarrow> int \<Rightarrow> advisory option list option \<Rightarrow> exn + db" where
  "insertAdvisories d packageId advisory_list =
     (case advisory_list of
        None \<Rightarrow> Inr d
      | Some as \<Rightarrow> if length as = 0 then Inr d else advisories_loop packageId as d)"






section \<open>Build\<close>










section \<open>Observations and test doubles\<close>

text \<open>Remote ends used at concrete inputs.\<close>

definition unreachable :: "string \<Rightarrow> 'a reply" where
  "unreachable url = No_reply"

definition empty_catalogue :: "string \<Rightarrow> nat list reply" where
  "empty_catalogue url = Reply 200 (Some [])"

definition three_pages :: "string \<Rightarrow> nat list reply" where
  "three_pages url =
     (if url = critical_url 1 then Reply 200 (Some [11, 12])
      else if url = critical_url 2 then Reply 200 (Some [21, 22])
      else if url = critical_url 3 then Reply 200 (Some [31, 32])
      else if url = critical_url 4 then Reply 200 (Some [])
      else Reply 404 None)"

definition two_pages_then_down :: "string \<Rightarrow> nat list reply" where
  "two_pages_then_down url =
     (if url = critical_url 1 then Reply 200 (Some [11, 12])
      else if url = critical_url 2 then Reply 200 (Some [21, 22])
      else Reply 503 None)"

text \<open>Records used at concrete inputs.\<close>

definition lodash :: pkg where
  "lodash =
     \<lparr>pkg_id = 1, pkg_ecosystem = ''npm'', pkg_name = ''lodash'', pkg_purl = None,
      pkg_namespace = None, pkg_description = None, pkg_homepage = None,
      pkg_repository_url = None, pkg_licenses = None, pkg_normalized_licenses = No_licenses,
      pkg_latest_release_number = None, pkg_versions_count = None, pkg_downloads = None,
      pkg_downloads_period = None, pkg_dependent_packages_count = None,
      pkg_dependent_repos_count = None, pkg_first_release_published_at = None,
      pkg_latest_release_published_at = None, pkg_last_synced_at = None,
      pkg_keywords_array = None, pkg_repo_metadata = None, pkg_host = None,
      pkg_advisories = None\<rparr>"

definition lodash_full :: pkg where
  "lodash_full =
     lodash\<lparr>pkg_purl := Some ''pkg:npm/lodash'',
            pkg_description := Some ''Lodash modular utilities'',
            pkg_licenses := Some ''MIT'',
            pkg_normalized_licenses := Licenses [''MIT''],
            pkg_latest_release_number := Some ''4.17.21'',
            pkg_versions_count := Some 114,
            pkg_keywords_array := Some [''utilities'', ''lodash'', ''modules'']\<rparr>"

definition lodash_changed :: pkg where
  "lodash_changed =
     lodash\<lparr>pkg_description := Some ''A utility library'',
            pkg_keywords_array := Some [''helpers'']\<rparr>"

definition lodash_renumbered :: pkg where
  "lodash_renumbered = lodash\<lparr>pkg_id := 2, pkg_keywords_array := Some [''helpers'']\<rparr>"

definition lodash_renumbered_again :: pkg where
  "lodash_renumbered_again = lodash_renumbered\<lparr>pkg_description := Some ''A utility library''\<rparr>"

definition lodash_no_keywords :: pkg where
  "lodash_no_keywords = lodash\<lparr>pkg_keywords_array := Some []\<rparr>"

definition ghsa :: advisory where
  "ghsa =
     \<lparr>adv_uuid = Some ''GHSA-29mw-wpgm-hmr9'', adv_url = None, adv_title = Some ''ReDoS in lodash'',
      adv_description = None, adv_severity = Some ''MODERATE'', adv_published_at = None,
      adv_cvss_score = None\<rparr>"

definition ghsa_revised :: advisory where
  "ghsa_revised = ghsa\<lparr>adv_title := Some ''Regular expression denial of service'', adv_severity := Some ''HIGH''\<rparr>"

definition no_uuid :: advisory where
  "no_uuid = ghsa\<lparr>adv_uuid := None\<rparr>"

text \<open>The uuid of an entry of an advisory list that bears one: the entry is not \<open>null\<close> and its uuid is
  neither missing nor empty.\<close>

fun entry_uuid :: "advisory option \<Rightarrow> string option" where
  "entry_uuid None = None"
| "entry_uuid (Some a) = (case adv_uuid a of None \<Rightarrow> None | Some u \<Rightarrow> if u = [] then None else Some u)"

definition uuid_bearing :: "advisory option \<Rightarrow> bool" where
  "uuid_bearing entry = (entry_uuid entry \<noteq> None)"

definition uuids :: "advisory option list \<Rightarrow> string list" where
  "uuids as = List.map_filter entry_uuid as"

text \<open>
  Stores used at concrete inputs: the fresh store after the statement of \<open>insertPackage\<close> for
  \<open>lodash_full\<close>; that store after the statement of \<open>insertAdvisories\<close> for \<open>ghsa\<close>;
  that one after the statement for \<open>ghsa_revised\<close>; and the first store after the statement
  of \<open>insertPackage\<close> for \<open>lodash_changed\<close>.
\<close>

definition lodash_stored :: db where
  "lodash_stored = put_package (package_row_of ''2024-01-01 00:00:00'' lodash_full) createDatabase"

definition lodash_advised :: db where
  "lodash_advised = put_advisory 1 ''GHSA-29mw-wpgm-hmr9'' ghsa lodash_stored"

definition lodash_readvised :: db where
  "lodash_readvised = put_advisory 1 ''GHSA-29mw-wpgm-hmr9'' ghsa_revised lodash_advised"

definition upsert_twice :: db where
  "upsert_twice = put_package (package_row_of ''2024-01-02 00:00:00'' lodash_changed) lodash_stored"

text \<open>
  What the claim on advisories speaks of, in its words: the uuid-bearing entries, each
  replaced by a later entry of the same uuid. An entry is kept when it bears a uuid that no
  later entry bears.
\<close>

fun persisted :: "advisory option list \<Rightarrow> advisory list" where
  "persisted [] = []"
| "persisted (entry # rest) =
     (case entry of
        None \<Rightarrow> persisted rest
      | Some a \<Rightarrow>
          if uuid_bearing entry \<and> entry_uuid entry \<notin> set (map entry_uuid rest)
          then a # persisted rest else persisted rest)"

text \<open>The columns of an advisory row that come from the entry, as an entry.\<close>

definition row_entry :: "advisory_row \<Rightarrow> advisory" where
  "row_entry r =
     \<lparr>adv_uuid = Some (advr_uuid r), adv_url = advr_url r, adv_title = advr_title r,
      adv_description = advr_description r, adv_severity = advr_severity r,
      adv_published_at = advr_published_at r, adv_cvss_score = advr_cvss_score r\<rparr>"

text \<open>The unique index on (package_id, uuid), seen on the uuids of one package.\<close>

definition put_key :: "string \<Rightarrow> string list \<Rightarrow> string list" where
  "put_key u ks = filter (\<lambda>k. k \<noteq> u) ks @ [u]"

text \<open>The index holds the entry of every package row, and nothing else.\<close>

definition fts_in_sync :: "db \<Rightarrow> bool" where
  "fts_in_sync d = (packages_fts d = map fts_entry_of (packages d))"





text \<open>The reading "a delay follows every page fetch, whatever its outcome" of a trace.\<close>

fun delay_after_every_fetch :: "event list \<Rightarrow> bool" where
  "delay_after_every_fetch [] = True"
| "delay_after_every_fetch (Request u # Sleep d # es) = (d = RATE_LIMIT_MS \<and> delay_after_every_fetch es)"
| "delay_after_every_fetch (Request u # es) = False"
| "delay_after_every_fetch (e # es) = delay_after_every_fetch es"

text \<open>The URLs requested in a trace, in order.\<close>

definition requests :: "event list \<Rightarrow> string list" where
  "requests trace = concat (map (\<lambda>e. case e of Request u \<Rightarrow> [u] | _ \<Rightarrow> []) trace)"

text \<open>The events of \<open>n\<close> pages that each held records: a request, then the delay.\<close>

definition page_events :: "nat \<Rightarrow> event list" where
  "page_events n = concat (map (\<lambda>k. [Request (critical_url (Suc k)), Sleep RATE_LIMIT_MS]) [0..<n])"

text \<open>The remote answers the pages 1 to \<open>length ps\<close> with the non-empty lists \<open>ps\<close>.\<close>

definition nonempty_pages :: "(string \<Rightarrow> 'p list reply) \<Rightarrow> 'p list list \<Rightarrow> bool" where
  "nonempty_pages remote ps =
     (map (\<lambda>k. fetchJson remote (critical_url (Suc k))) [0..<length ps] = map Inr ps \<and> [] \<notin> set ps)"


section \<open>Properties of the paginator\<close>

lemma fetch_loop_pages:
  assumes "\<forall>k<length ps. fetchJson remote (critical_url (p + k)) = Inr (ps ! k) \<and> ps ! k \<noteq> []"
  shows "fetch_loop remote acc p tr =
         fetch_loop remote (acc @ concat ps) (p + length ps)
           (tr @ concat (map (\<lambda>k. [Request (critical_url (p + k)), Sleep RATE_LIMIT_MS]) [0..<length ps]))"
  using assms
proof (induction ps arbitrary: acc p tr)
  case Nil
  then show ?case by simp
next
  case (Cons b bs)
  have hd: "fetchJson remote (critical_url p) = Inr b" "b \<noteq> []"
    using Cons.prems by force+
  have tl: "\<forall>k<length bs. fetchJson remote (critical_url (Suc p + k)) = Inr (bs ! k) \<and> bs ! k \<noteq> []"
    using Cons.prems by force
  have step: "fetch_loop remote acc p tr =
        fetch_loop remote (acc @ b) (Suc p) (tr @ [Request (critical_url p), Sleep RATE_LIMIT_MS])"
    by (subst fetch_loop.simps) (simp add: hd)
  have shift: "map (\<lambda>k. [Request (critical_url (p + k)), Sleep RATE_LIMIT_MS]) [0..<length (b # bs)] =
        [Request (critical_url p), Sleep RATE_LIMIT_MS] #
        map (\<lambda>k. [Request (critical_url (Suc p + k)), Sleep RATE_LIMIT_MS]) [0..<length bs]"
    by (simp add: upt_conv_Cons map_Suc_upt [symmetric] del: upt_Suc)
  show ?case
    unfolding step shift using Cons.IH [OF tl, of "acc @ b" "tr @ [Request (critical_url p), Sleep RATE_LIMIT_MS]"]
    by simp
qed

lemma fetch_loop_empty:
  "fetchJson remote (critical_url p) = Inr [] \<Longrightarrow>
   fetch_loop remote acc p tr = Some (Inr acc, tr @ [Request (critical_url p)])"
  by (subst fetch_loop.simps) simp

lemma fetch_loop_error:
  "fetchJson remote (critical_url p) = Inl e \<Longrightarrow>
   fetch_loop remote acc p tr = Some (Inl e, tr @ [Request (critical_url p)])"
  by (subst fetch_loop.simps) simp

lemma nonempty_pages_nth:
  assumes "nonempty_pages remote ps" and "k < length ps"
  shows "fetchJson remote (critical_url (Suc k)) = Inr (ps ! k) \<and> ps ! k \<noteq> []"
proof -
  have "map (\<lambda>k. fetchJson remote (critical_url (Suc k))) [0..<length ps] ! k = map Inr ps ! k"
    using assms(1) by (simp only: nonempty_pages_def)
  then have "fetchJson remote (critical_url (Suc k)) = Inr (ps ! k)"
    using assms(2) by simp
  moreover have "ps ! k \<noteq> []"
    using assms by (metis nonempty_pages_def nth_mem)
  ultimately show ?thesis by simp
qed

lemma fetchAll_prefix:
  assumes "nonempty_pages remote ps"
  shows "fetchAllCriticalPackages remote =
         fetch_loop remote (concat ps) (Suc (length ps)) (page_events (length ps))"
  using fetch_loop_pages [of ps remote 1 "[]" "[]"] nonempty_pages_nth [OF assms]
  by (simp add: fetchAllCriticalPackages_def page_events_def)

lemma requests_page_events: "requests (page_events n) = map critical_url [1..<Suc n]"
  by (induction n) (simp_all add: requests_def page_events_def)

lemma requests_single: "requests [Request u] = [u]"
  by (simp add: requests_def)

lemma requests_append: "requests (a @ b) = requests a @ requests b"
  by (simp add: requests_def)

lemma critical_url_text:
  "critical_url page = ''https://packages.ecosyste.ms/api/v1/packages/critical?per_page=1000&page='' @ show_nat page"
  by (simp add: critical_url_def API_BASE_def PER_PAGE_def show_nat.simps digit_char_def digits_def)

text \<open>
  Claim C1. When the remote answers the pages 1 to n with non-empty lists and page n + 1
  with the empty list, \<open>fetchAllCriticalPackages\<close> returns, its result is the
  concatenation of the n pages in order, and the requests it made are exactly those for
  the pages 1, 2, ..., n + 1, each of the fixed size \<open>per_page=1000\<close>: n + 1 requests.
  For three pages followed by an empty one these are four requests.
\<close>

theorem fetchAllCriticalPackages_concat:
  assumes "nonempty_pages remote ps"
    and "fetchJson remote (critical_url (Suc (length ps))) = Inr []"
  shows "(\<exists>trace. fetchAllCriticalPackages remote = Some (Inr (concat ps), trace) \<and>
            requests trace = map critical_url [1..<length ps + 2] \<and>
            length (requests trace) = length ps + 1) \<and>
         (\<forall>page. critical_url page =
            ''https://packages.ecosyste.ms/api/v1/packages/critical?per_page=1000&page='' @ show_nat page)"
proof -
  have "fetchAllCriticalPackages remote =
        Some (Inr (concat ps), page_events (length ps) @ [Request (critical_url (Suc (length ps)))])"
    using fetchAll_prefix [OF assms(1)] fetch_loop_empty [OF assms(2)] by simp
  moreover have "[1..<Suc (Suc (length ps))] = [1..<Suc (length ps)] @ [Suc (length ps)]"
    by (rule upt_Suc_append) simp
  then have "[1..<length ps + 2] = [1..<Suc (length ps)] @ [Suc (length ps)]"
    by (simp only: add_2_eq_Suc')
  then have "requests (page_events (length ps) @ [Request (critical_url (Suc (length ps)))]) =
        map critical_url [1..<length ps + 2]"
    by (simp only: requests_append requests_page_events requests_single map_append list.map)
  moreover have "length (map critical_url [1..<length ps + 2]) = length ps + 1"
    by (simp only: length_map length_upt)
  ultimately have "\<exists>trace. fetchAllCriticalPackages remote = Some (Inr (concat ps), trace) \<and>
           requests trace = map critical_url [1..<length ps + 2] \<and>
           length (requests trace) = length ps + 1"
    by (metis (no_types))
  then show ?thesis
    using critical_url_text by blast
qed

lemma three_pages_fetch:
  "fetchJson three_pages (critical_url 1) = Inr [11, 12]"
  "fetchJson three_pages (critical_url 2) = Inr [21, 22]"
  "fetchJson three_pages (critical_url 3) = Inr [31, 32]"
  "fetchJson three_pages (critical_url 4) = Inr []"
  by (simp_all add: fetchJson_def three_pages_def response_ok_def critical_url_text show_nat.simps digit_char_def digits_def)

lemma three_pages_nonempty: "nonempty_pages three_pages [[11, 12], [21, 22], [31, 32]]"
  by (simp add: nonempty_pages_def upt_rec fetchJson_def three_pages_def response_ok_def
        critical_url_text show_nat.simps digit_char_def digits_def)

theorem fetchAllCriticalPackages_concat_witness:
  "\<exists>trace. fetchAllCriticalPackages three_pages = Some (Inr [11, 12, 21, 22, 31, 32], trace) \<and>
      requests trace =
        [''https://packages.ecosyste.ms/api/v1/packages/critical?per_page=1000&page=1'',
         ''https://packages.ecosyste.ms/api/v1/packages/critical?per_page=1000&page=2'',
         ''https://packages.ecosyste.ms/api/v1/packages/critical?per_page=1000&page=3'',
         ''https://packages.ecosyste.ms/api/v1/packages/critical?per_page=1000&page=4''] \<and>
      length (requests trace) = 4"
proof -
  note np = three_pages_nonempty
  have last: "fetchJson three_pages (critical_url (Suc (length [[11, 12], [21, 22], [31::nat, 32]]))) = Inr []"
    using three_pages_fetch(4) by (simp add: eval_nat_numeral)
  from fetchAllCriticalPackages_concat [OF np last]
  obtain trace where t: "fetchAllCriticalPackages three_pages = Some (Inr (concat [[11, 12], [21, 22], [31, 32]]), trace)"
      "requests trace = map critical_url [1..<length [[11, 12], [21, 22], [31::nat, 32]] + 2]"
    by blast
  have "[1..<length [[11, 12], [21, 22], [31::nat, 32]] + 2] = [1, 2, 3, 4]"
    by (simp add: upt_rec)
  then have r: "requests trace = map critical_url [1, 2, 3, 4]"
    using t(2) by (simp only:)
  have urls: "map critical_url [1, 2, 3, 4] =
       [''https://packages.ecosyste.ms/api/v1/packages/critical?per_page=1000&page=1'',
        ''https://packages.ecosyste.ms/api/v1/packages/critical?per_page=1000&page=2'',
        ''https://packages.ecosyste.ms/api/v1/packages/critical?per_page=1000&page=3'',
        ''https://packages.ecosyste.ms/api/v1/packages/critical?per_page=1000&page=4'']"
    by (simp add: critical_url_text show_nat.simps digit_char_def digits_def)
  have res: "concat [[11, 12], [21, 22], [31, 32]] = [11, 12, 21, 22, 31, 32::nat]"
    by simp
  show ?thesis
    using t(1) r unfolding urls res by simp
qed

text \<open>
  Conversely, a run that returns a list has fetched an empty page after non-empty ones, and
  the list is their concatenation: the loop stops nowhere else with a result.
\<close>

lemma fetch_loop_returns:
  assumes "fetch_loop remote acc p tr = Some y"
  shows "\<forall>result trace. y = (Inr result, trace) \<longrightarrow>
         (\<exists>ps. (\<forall>k<length ps. fetchJson remote (critical_url (p + k)) = Inr (ps ! k) \<and> ps ! k \<noteq> []) \<and>
               fetchJson remote (critical_url (p + length ps)) = Inr [] \<and>
               result = acc @ concat ps)"
proof (rule fetch_loop.raw_induct [where P = "\<lambda>remote acc p tr y. \<forall>result trace. y = (Inr result, trace) \<longrightarrow>
         (\<exists>ps. (\<forall>k<length ps. fetchJson remote (critical_url (p + k)) = Inr (ps ! k) \<and> ps ! k \<noteq> []) \<and>
               fetchJson remote (critical_url (p + length ps)) = Inr [] \<and>
               result = acc @ concat ps)", OF _ assms], goal_cases)
  case (1 loop remote acc p tr y)
  have body: "(case fetchJson remote (critical_url p) of
           Inl err \<Rightarrow> Some (Inl err, tr @ [Request (critical_url p)])
         | Inr batch \<Rightarrow>
             if length batch = 0 then Some (Inr acc, tr @ [Request (critical_url p)])
             else loop remote (acc @ batch) (p + 1) ((tr @ [Request (critical_url p)]) @ [Sleep RATE_LIMIT_MS])) = Some y"
    using 1(2) by (simp only: Let_def)
  show ?case
  proof (cases "fetchJson remote (critical_url p)")
    case (Inl e)
    with body have "y = (Inl e, tr @ [Request (critical_url p)])" by simp
    then show ?thesis by simp
  next
    case (Inr batch)
    show ?thesis
    proof (cases "batch = []")
      case True
      with Inr body have "y = (Inr acc, tr @ [Request (critical_url p)])" by simp
      moreover have "(\<forall>k<length ([]::'a list list). fetchJson remote (critical_url (p + k)) = Inr ([] ! k) \<and> [] ! k \<noteq> ([]::'a list)) \<and>
               fetchJson remote (critical_url (p + length ([]::'a list list))) = Inr [] \<and>
               acc = acc @ concat []"
        using Inr True by simp
      ultimately show ?thesis by blast
    next
      case False
      with Inr body have rec: "loop remote (acc @ batch) (p + 1) ((tr @ [Request (critical_url p)]) @ [Sleep RATE_LIMIT_MS]) = Some y"
        by simp
      show ?thesis
      proof (intro allI impI)
        fix result trace assume y: "y = (Inr result, trace)"
        from 1(1) [OF rec] y obtain ps where
          ps: "\<forall>k<length ps. fetchJson remote (critical_url (p + 1 + k)) = Inr (ps ! k) \<and> ps ! k \<noteq> []"
            "fetchJson remote (critical_url (p + 1 + length ps)) = Inr []"
            "result = (acc @ batch) @ concat ps"
          by blast
        have "\<forall>k<length (batch # ps). fetchJson remote (critical_url (p + k)) = Inr ((batch # ps) ! k) \<and> (batch # ps) ! k \<noteq> []"
        proof (intro allI impI)
          fix k assume "k < length (batch # ps)"
          then show "fetchJson remote (critical_url (p + k)) = Inr ((batch # ps) ! k) \<and> (batch # ps) ! k \<noteq> []"
            using Inr False ps(1) by (cases k) auto
        qed
        moreover have "fetchJson remote (critical_url (p + length (batch # ps))) = Inr []"
          using ps(2) by simp
        moreover have "result = acc @ concat (batch # ps)"
          using ps(3) by simp
        ultimately show "\<exists>ps. (\<forall>k<length ps. fetchJson remote (critical_url (p + k)) = Inr (ps ! k) \<and> ps ! k \<noteq> []) \<and>
               fetchJson remote (critical_url (p + length ps)) = Inr [] \<and>
               result = acc @ concat ps"
          by blast
      qed
    qed
  qed
qed


lemma nonempty_pagesI:
  assumes "\<forall>k<length ps. fetchJson remote (critical_url (Suc k)) = Inr (ps ! k) \<and> ps ! k \<noteq> []"
  shows "nonempty_pages remote ps"
proof -
  have "map (\<lambda>k. fetchJson remote (critical_url (Suc k))) [0..<length ps] = map Inr ps"
    using assms by (intro nth_equalityI) simp_all
  moreover have "[] \<notin> set ps"
    using assms by (metis in_set_conv_nth)
  ultimately show ?thesis
    by (simp add: nonempty_pages_def)
qed

lemma fetchAllCriticalPackages_returns:
  assumes "fetchAllCriticalPackages remote = Some (Inr result, trace)"
  shows "\<exists>ps. nonempty_pages remote ps \<and>
              fetchJson remote (critical_url (Suc (length ps))) = Inr [] \<and> result = concat ps"
proof -
  from fetch_loop_returns [OF assms [unfolded fetchAllCriticalPackages_def]]
  obtain ps where ps: "\<forall>k<length ps. fetchJson remote (critical_url (1 + k)) = Inr (ps ! k) \<and> ps ! k \<noteq> []"
      "fetchJson remote (critical_url (1 + length ps)) = Inr []" "result = [] @ concat ps"
    by blast
  have "nonempty_pages remote ps"
    using ps(1) by (intro nonempty_pagesI) simp
  with ps(2,3) show ?thesis
    by auto
qed

text \<open>
  Claim C7, as stated, fails: the delay comes after \<open>page++\<close>, so the loop has left
  through \<open>break\<close> on an empty page, or through the exception of a failed fetch,
  before reaching it. A source whose first page is empty, and one that cannot be reached,
  are each asked once and no delay follows.
\<close>

theorem delay_only_between_requests_counterexample:
  "fetchAllCriticalPackages empty_catalogue = Some (Inr [], [Request (critical_url 1)]) \<and>
   \<not> delay_after_every_fetch [Request (critical_url 1)] \<and>
   fetchAllCriticalPackages (unreachable :: string \<Rightarrow> nat list reply) =
     Some (Inl Network_failure, [Request (critical_url 1)])"
proof -
  have "fetchJson empty_catalogue (critical_url 1) = Inr []"
    by (simp add: fetchJson_def empty_catalogue_def response_ok_def)
  then have a: "fetchAllCriticalPackages empty_catalogue = Some (Inr [], [Request (critical_url 1)])"
    using fetch_loop_empty [of empty_catalogue 1 "[]" "[]"] by (simp add: fetchAllCriticalPackages_def)
  have "fetchJson (unreachable :: string \<Rightarrow> nat list reply) (critical_url 1) = Inl Network_failure"
    by (simp add: fetchJson_def unreachable_def)
  then have b: "fetchAllCriticalPackages (unreachable :: string \<Rightarrow> nat list reply) =
     Some (Inl Network_failure, [Request (critical_url 1)])"
    using fetch_loop_error [of unreachable 1 Network_failure "[]" "[]"] by (simp add: fetchAllCriticalPackages_def)
  show ?thesis using a b by simp
qed

text \<open>
  Claim C7, amended. The delay of \<open>RATE_LIMIT_MS\<close> follows every fetch that returned a
  non-empty page, so it separates any two consecutive requests; no delay follows the last
  fetch, whether it returned the empty page or failed.
\<close>

theorem delay_after_each_nonempty_page:
  assumes "nonempty_pages remote ps"
    and "fetchJson remote (critical_url (Suc (length ps))) = last_reply"
    and "last_reply = Inr [] \<or> isl last_reply"
  shows "\<exists>result. fetchAllCriticalPackages remote =
           Some (result, page_events (length ps) @ [Request (critical_url (Suc (length ps)))])"
proof (cases last_reply)
  case (Inl e)
  then show ?thesis
    using fetchAll_prefix [OF assms(1)] fetch_loop_error [of remote "Suc (length ps)" e] assms(2) by simp
next
  case (Inr batch)
  with assms(3) have "last_reply = Inr []" by auto
  then show ?thesis
    using fetchAll_prefix [OF assms(1)] fetch_loop_empty [of remote "Suc (length ps)"] assms(2) by simp
qed

theorem delay_after_each_nonempty_page_witness:
  "\<exists>result. fetchAllCriticalPackages three_pages =
     Some (result,
       [Request (critical_url 1), Sleep 50, Request (critical_url 2), Sleep 50,
        Request (critical_url 3), Sleep 50, Request (critical_url 4)])"
proof -
  have l: "fetchJson three_pages (critical_url (Suc (length [[11, 12], [21, 22], [31::nat, 32]]))) = Inr []"
    using three_pages_fetch(4) by (simp add: eval_nat_numeral)
  have e: "page_events (length [[11, 12], [21, 22], [31::nat, 32]]) @
        [Request (critical_url (Suc (length [[11, 12], [21, 22], [31::nat, 32]])))] =
       [Request (critical_url 1), Sleep 50, Request (critical_url 2), Sleep 50,
        Request (critical_url 3), Sleep 50, Request (critical_url 4)]"
    by (simp add: page_events_def upt_rec RATE_LIMIT_MS_def eval_nat_numeral)
  show ?thesis
    using delay_after_each_nonempty_page [OF three_pages_nonempty l] unfolding e by simp
qed

section \<open>Properties of error handling\<close>

lemma fetchVersionNumbers_cases:
  "fetchVersionNumbers vremote ecosystem (Well_formed name) = (Inr [], []) \<and> \<not> truthy (ecosystemToRegistry ecosystem) \<or>
   (\<exists>url. truthy (ecosystemToRegistry ecosystem) \<and>
      url = versions_url (to_string (ecosystemToRegistry ecosystem)) (concat (map percent_encode name)) \<and>
      fetchVersionNumbers vremote ecosystem (Well_formed name) =
        (Inr (case fetchJson vremote url of Inl e \<Rightarrow> [] | Inr v \<Rightarrow> v), [Request url]))"
  by (simp add: fetchVersionNumbers_def Let_def split: sum.splits)

lemma fetchVersionNumbers_ill_formed:
  "fetchVersionNumbers vremote ecosystem Ill_formed =
     (if truthy (ecosystemToRegistry ecosystem) then (Inl URI_error, []) else (Inr [], []))"
  by (simp add: fetchVersionNumbers_def Let_def)

text \<open>
  Claim C6, as stated, fails for the version lookup: \<open>encodeURIComponent\<close> stands before
  the \<open>try\<close>, so on a name with a lone surrogate \<open>fetchVersionNumbers\<close> throws
  \<open>URIError\<close> when the ecosystem has a registry. The \<open>catch\<close> covers \<open>fetchJson\<close> alone.
\<close>

theorem fetchVersionNumbers_throws_counterexample:
  "fetchVersionNumbers unreachable ''npm'' Ill_formed = (Inl URI_error, [])"
  by (simp add: fetchVersionNumbers_def ecosystemToRegistry_def get_property_def registry_map_def
        lower_char_def upper_letters_def lower_letters_def)

text \<open>
  Claim C6, amended. A failure of \<open>fetchJson\<close> on a page (no reply, a status outside 200 to
  299, or a body that does not decode) is the outcome of \<open>fetchAllCriticalPackages\<close>: the
  pages collected before are not returned. For every ecosystem and every well-formed name
  \<open>fetchVersionNumbers\<close> returns a list: the empty one when no request is made and when the
  request it makes fails. On a name that is not well formed it throws \<open>URIError\<close> when
  the ecosystem has a registry and returns the empty list, without a request, when it has
  none.
\<close>

theorem transport_error_fatal_or_swallowed:
  assumes "nonempty_pages remote ps"
    and "fetchJson remote (critical_url (Suc (length ps))) = Inl err"
  shows "(\<exists>trace. fetchAllCriticalPackages remote = Some (Inl err, trace)) \<and>
         (\<exists>versions trace. fetchVersionNumbers vremote ecosystem (Well_formed name) = (Inr versions, trace) \<and>
            (\<forall>url e. trace = [Request url] \<and> fetchJson vremote url = Inl e \<longrightarrow> versions = []) \<and>
            (trace = [] \<longrightarrow> versions = [])) \<and>
         fetchVersionNumbers vremote ecosystem Ill_formed =
           (if truthy (ecosystemToRegistry ecosystem) then (Inl URI_error, []) else (Inr [], []))"
proof (intro conjI)
  show "\<exists>trace. fetchAllCriticalPackages remote = Some (Inl err, trace)"
    using fetchAll_prefix [OF assms(1)] fetch_loop_error [OF assms(2)] by simp
  show "\<exists>versions trace. fetchVersionNumbers vremote ecosystem (Well_formed name) = (Inr versions, trace) \<and>
            (\<forall>url e. trace = [Request url] \<and> fetchJson vremote url = Inl e \<longrightarrow> versions = []) \<and>
            (trace = [] \<longrightarrow> versions = [])"
    using fetchVersionNumbers_cases [of vremote ecosystem name] by auto
  show "fetchVersionNumbers vremote ecosystem Ill_formed =
           (if truthy (ecosystemToRegistry ecosystem) then (Inl URI_error, []) else (Inr [], []))"
    by (rule fetchVersionNumbers_ill_formed)
qed

lemma two_pages_nonempty: "nonempty_pages two_pages_then_down [[11, 12], [21, 22]]"
  by (simp add: nonempty_pages_def upt_rec fetchJson_def two_pages_then_down_def response_ok_def
        critical_url_text show_nat.simps digit_char_def digits_def)

lemma two_pages_then_down_fails:
  "fetchJson two_pages_then_down (critical_url (Suc (length [[11, 12], [21, 22::nat]]))) =
     Inl (Http_error 503 (critical_url 3))"
  by (simp add: fetchJson_def two_pages_then_down_def response_ok_def
        critical_url_text show_nat.simps digit_char_def digits_def eval_nat_numeral)

theorem transport_error_fatal_or_swallowed_witness:
  "(\<exists>trace. fetchAllCriticalPackages two_pages_then_down = Some (Inl (Http_error 503 (critical_url 3)), trace)) \<and>
   fetchVersionNumbers unreachable ''npm'' (Well_formed ''lodash'') =
     (Inr [], [Request ''https://packages.ecosyste.ms/api/v1/registries/npmjs.org/packages/lodash/version_numbers''])"
proof -
  have "fetchVersionNumbers unreachable ''npm'' (Well_formed ''lodash'') =
     (Inr [], [Request ''https://packages.ecosyste.ms/api/v1/registries/npmjs.org/packages/lodash/version_numbers''])"
    by (simp add: fetchVersionNumbers_def fetchJson_def unreachable_def versions_url_def API_BASE_def
        percent_encode_def unreserved_def hex_upper_def digits_def
        ecosystemToRegistry_def get_property_def registry_map_def Object_prototype_def
        lower_char_def upper_letters_def lower_letters_def)
  then show ?thesis
    using transport_error_fatal_or_swallowed [OF two_pages_nonempty two_pages_then_down_fails, of unreachable "''npm''" "''lodash''"]
    by simp
qed

section \<open>Properties of the upsert of a package\<close>

lemma find_append_last:
  "\<forall>x\<in>set xs. \<not> P x \<Longrightarrow> find P (xs @ ys) = find P ys"
  by (induction xs) auto

lemma packages_put_package:
  "packages (put_package new d) = filter (\<lambda>old. \<not> conflicts new old) (packages d) @ [new]"
  by (simp add: put_package_def Let_def)

lemma referenced_put_package: "referenced (put_package new d) i = referenced d i"
  by (simp add: referenced_def put_package_def Let_def)

lemma package_row_of_key:
  "row_id (package_row_of now P) = pkg_id P"
  "row_ecosystem (package_row_of now P) = pkg_ecosystem P"
  "row_name (package_row_of now P) = pkg_name P"
  by (simp_all add: package_row_of_def)

lemma insertPackage_ok:
  "\<not> foreign_key_violated d (pkg_id P) (pkg_ecosystem P) (pkg_name P) \<Longrightarrow>
   insertPackage now d P = Inr (put_package (package_row_of now P) d, pkg_id P)"
  by (simp add: insertPackage_def replace_into_packages_def package_row_of_key)

lemma insertPackage_fails:
  "foreign_key_violated d (pkg_id P) (pkg_ecosystem P) (pkg_name P) \<Longrightarrow>
   insertPackage now d P = Inl Foreign_key_failed"
  by (simp add: insertPackage_def replace_into_packages_def package_row_of_key)

lemma fresh_store_accepts: "\<not> foreign_key_violated createDatabase i ecosystem name"
  by (simp add: foreign_key_violated_def createDatabase_def)

lemma lookup_put_package:
  "lookup (put_package (package_row_of now P) d) (pkg_ecosystem P) (pkg_name P) = Some (package_row_of now P)"
proof -
  let ?row = "package_row_of now P"
  let ?hit = "\<lambda>r. row_ecosystem r = pkg_ecosystem P \<and> row_name r = pkg_name P"
  have "\<forall>r\<in>set (filter (\<lambda>old. \<not> conflicts ?row old) (packages d)). \<not> ?hit r"
    by (auto simp: conflicts_def package_row_of_key)
  then have "find ?hit (filter (\<lambda>old. \<not> conflicts ?row old) (packages d) @ [?row]) = find ?hit [?row]"
    by (rule find_append_last)
  then show ?thesis
    by (simp add: lookup_def packages_put_package package_row_of_key)
qed

lemma foreign_key_violated_after:
  assumes "foreign_key_violated (put_package (package_row_of t P1) d) (pkg_id P1) ecosystem name"
  shows "foreign_key_violated d (pkg_id P1) ecosystem name"
  using assms
  by (auto simp: foreign_key_violated_def list_ex_iff packages_put_package referenced_put_package
      package_row_of_key)

lemma package_row_of_explicit:
  "package_row_of now P =
     \<lparr>row_id = pkg_id P,
      row_ecosystem = pkg_ecosystem P,
      row_name = pkg_name P,
      row_purl = pkg_purl P,
      row_namespace = pkg_namespace P,
      row_description = pkg_description P,
      row_homepage = pkg_homepage P,
      row_repository_url = pkg_repository_url P,
      row_licenses = pkg_licenses P,
      row_normalized_licenses = JSON_stringify (pkg_normalized_licenses P),
      row_latest_version = pkg_latest_release_number P,
      row_versions_count = pkg_versions_count P,
      row_downloads = pkg_downloads P,
      row_downloads_period = pkg_downloads_period P,
      row_dependent_packages_count = pkg_dependent_packages_count P,
      row_dependent_repos_count = pkg_dependent_repos_count P,
      row_first_release_at = pkg_first_release_published_at P,
      row_latest_release_at = pkg_latest_release_published_at P,
      row_last_synced_at = pkg_last_synced_at P,
      row_keywords = map_option (join '' '') (pkg_keywords_array P),
      row_created_at = Some now\<rparr>"
  by (simp add: package_row_of_def split: option.splits)

lemma lodash_stored_run:
  "insertPackage ''2024-01-01 00:00:00'' createDatabase lodash_full = Inr (lodash_stored, 1)"
  using insertPackage_ok [of createDatabase lodash_full "''2024-01-01 00:00:00''", OF fresh_store_accepts]
  by (simp add: lodash_stored_def lodash_full_def lodash_def)

lemma has_package_lodash_stored: "has_package lodash_stored 1"
  by (simp add: has_package_def lodash_stored_def packages_put_package package_row_of_key
      lodash_full_def lodash_def)

lemma lodash_advised_run:
  "insertAdvisories lodash_stored 1 (Some [Some ghsa]) = Inr lodash_advised"
  by (simp add: insertAdvisories_def replace_into_advisories_def has_package_lodash_stored
      lodash_advised_def ghsa_def)

lemma lodash_advised_blocks:
  "foreign_key_violated lodash_advised 2 ''npm'' ''lodash''"
  by (simp add: foreign_key_violated_def referenced_def lodash_advised_def put_advisory_def
      lodash_stored_def put_package_def createDatabase_def package_row_of_def lodash_full_def
      lodash_def Let_def)

lemma lodash_advised_packages:
  "map row_id (packages lodash_advised) = [1]"
  "map row_keywords (packages lodash_advised) = [Some ''utilities lodash modules'']"
  "map_option row_id (lookup lodash_advised ''npm'' ''lodash'') = Some 1"
  "map_option row_keywords (lookup lodash_advised ''npm'' ''lodash'') = Some (Some ''utilities lodash modules'')"
  by (simp_all add: lookup_def lodash_advised_def put_advisory_def
      lodash_stored_def put_package_def createDatabase_def package_row_of_def lodash_full_def
      lodash_def Let_def)

text \<open>
  Claim C2, as stated, fails on a store where another id holds the ecosystem and name of the
  record and is referred to. Package 1, \<open>lodash\<close> of \<open>npm\<close>, is stored with an advisory;
  the record of id 2 with the same ecosystem and name would replace its row, the foreign key
  of the advisory fails, \<open>insertPackage\<close> throws and writes nothing, and the lookup on
  (\<open>npm\<close>, \<open>lodash\<close>) returns the row of id 1.
\<close>

theorem upsertPackage_roundtrip_counterexample:
  "insertPackage ''2024-01-01 00:00:00'' createDatabase lodash_full = Inr (lodash_stored, 1) \<and>
   insertAdvisories lodash_stored 1 (Some [Some ghsa]) = Inr lodash_advised \<and>
   pkg_id lodash_renumbered = 2 \<and> pkg_ecosystem lodash_renumbered = ''npm'' \<and>
   pkg_name lodash_renumbered = ''lodash'' \<and>
   insertPackage ''2024-01-02 00:00:00'' lodash_advised lodash_renumbered = Inl Foreign_key_failed \<and>
   map_option row_id (lookup lodash_advised ''npm'' ''lodash'') = Some 1"
proof -
  have "insertPackage ''2024-01-02 00:00:00'' lodash_advised lodash_renumbered = Inl Foreign_key_failed"
    by (rule insertPackage_fails) (simp add: lodash_renumbered_def lodash_def lodash_advised_blocks)
  then show ?thesis
    by (simp add: lodash_stored_run lodash_advised_run lodash_advised_packages
        lodash_renumbered_def lodash_def)
qed

text \<open>
  Claim C2, amended. On a store where no row of another id with the ecosystem and name of the
  record is referred to by a version, an advisory or repository metadata (a fresh store is
  one, \<open>fresh_store_accepts\<close>), \<open>insertPackage\<close> returns and the lookup on the ecosystem and
  name of the record then returns a row that carries every column of the record: the
  normalized licenses as their JSON text, the latest release number in \<open>latest_version\<close>,
  the keywords joined by spaces. \<open>created_at\<close> is no field of the record: it holds the time
  of the statement. On any other store \<open>insertPackage\<close> throws (\<open>insertPackage_fails\<close>).
\<close>

theorem upsertPackage_roundtrip:
  assumes "\<not> foreign_key_violated d (pkg_id P) (pkg_ecosystem P) (pkg_name P)"
  shows "\<exists>d'. insertPackage now d P = Inr (d', pkg_id P) \<and>
     lookup d' (pkg_ecosystem P) (pkg_name P) =
       Some \<lparr>row_id = pkg_id P,
             row_ecosystem = pkg_ecosystem P,
             row_name = pkg_name P,
             row_purl = pkg_purl P,
             row_namespace = pkg_namespace P,
             row_description = pkg_description P,
             row_homepage = pkg_homepage P,
             row_repository_url = pkg_repository_url P,
             row_licenses = pkg_licenses P,
             row_normalized_licenses = JSON_stringify (pkg_normalized_licenses P),
             row_latest_version = pkg_latest_release_number P,
             row_versions_count = pkg_versions_count P,
             row_downloads = pkg_downloads P,
             row_downloads_period = pkg_downloads_period P,
             row_dependent_packages_count = pkg_dependent_packages_count P,
             row_dependent_repos_count = pkg_dependent_repos_count P,
             row_first_release_at = pkg_first_release_published_at P,
             row_latest_release_at = pkg_latest_release_published_at P,
             row_last_synced_at = pkg_last_synced_at P,
             row_keywords = map_option (join '' '') (pkg_keywords_array P),
             row_created_at = Some now\<rparr>"
  using insertPackage_ok [OF assms, of now] lookup_put_package [of now P d]
  by (simp only: package_row_of_explicit) blast

theorem upsertPackage_roundtrip_witness:
  "\<not> foreign_key_violated createDatabase 1 ''npm'' ''lodash'' \<and>
   (\<exists>d'. insertPackage ''2024-01-01 00:00:00'' createDatabase lodash_full = Inr (d', 1) \<and>
     lookup d' ''npm'' ''lodash'' =
     Some \<lparr>row_id = 1, row_ecosystem = ''npm'', row_name = ''lodash'',
           row_purl = Some ''pkg:npm/lodash'', row_namespace = None,
           row_description = Some ''Lodash modular utilities'', row_homepage = None,
           row_repository_url = None, row_licenses = Some ''MIT'',
           row_normalized_licenses = Some [CHR ''['', CHR 0x22, CHR ''M'', CHR ''I'', CHR ''T'', CHR 0x22, CHR '']''],
           row_latest_version = Some ''4.17.21'', row_versions_count = Some 114,
           row_downloads = None, row_downloads_period = None,
           row_dependent_packages_count = None, row_dependent_repos_count = None,
           row_first_release_at = None, row_latest_release_at = None, row_last_synced_at = None,
           row_keywords = Some ''utilities lodash modules'',
           row_created_at = Some ''2024-01-01 00:00:00''\<rparr>)"
proof -
  have ok: "\<not> foreign_key_violated createDatabase (pkg_id lodash_full) (pkg_ecosystem lodash_full) (pkg_name lodash_full)"
    by (rule fresh_store_accepts)
  show ?thesis
    using upsertPackage_roundtrip [OF ok, of "''2024-01-01 00:00:00''"] fresh_store_accepts [of 1 "''npm''" "''lodash''"]
    by (simp add: lodash_full_def lodash_def json_quote_def json_escape_def)
qed

text \<open>
  Claim C3, as stated, fails on the same store: two records of id 2 with the ecosystem and
  name of the referred package 1 are both refused, and the store holds no row of id 2.
\<close>

theorem upsertPackage_last_write_wins_counterexample:
  "pkg_id lodash_renumbered = pkg_id lodash_renumbered_again \<and>
   insertPackage ''2024-01-02 00:00:00'' lodash_advised lodash_renumbered = Inl Foreign_key_failed \<and>
   insertPackage ''2024-01-03 00:00:00'' lodash_advised lodash_renumbered_again = Inl Foreign_key_failed \<and>
   pkg_id lodash_renumbered_again = 2 \<and>
   map row_id (packages lodash_advised) = [1]"
proof -
  have "insertPackage ''2024-01-02 00:00:00'' lodash_advised lodash_renumbered = Inl Foreign_key_failed"
    by (rule insertPackage_fails) (simp add: lodash_renumbered_def lodash_def lodash_advised_blocks)
  moreover have "insertPackage ''2024-01-03 00:00:00'' lodash_advised lodash_renumbered_again = Inl Foreign_key_failed"
    by (rule insertPackage_fails)
       (simp add: lodash_renumbered_again_def lodash_renumbered_def lodash_def lodash_advised_blocks)
  ultimately show ?thesis
    by (simp add: lodash_advised_packages lodash_renumbered_again_def lodash_renumbered_def lodash_def)
qed

text \<open>
  Claim C3, amended. On a store that refuses neither record, after \<open>insertPackage\<close> of a
  record and then of a second one with the same id, both calls return and the table holds
  exactly one row with that id, whose every column is that of the second record (and
  \<open>created_at\<close> the time of the second statement). When the two records also share ecosystem
  and name, as a repeated record does, the table is what the second write alone would leave.
  This is about the table \<open>packages\<close>; the full-text index is the subject of claim C5.
\<close>

theorem upsertPackage_last_write_wins:
  assumes "pkg_id P1 = pkg_id P2"
    and "\<not> foreign_key_violated d (pkg_id P1) (pkg_ecosystem P1) (pkg_name P1)"
    and "\<not> foreign_key_violated d (pkg_id P2) (pkg_ecosystem P2) (pkg_name P2)"
  shows "\<exists>d1 d2 d3.
     insertPackage t1 d P1 = Inr (d1, pkg_id P1) \<and>
     insertPackage t2 d1 P2 = Inr (d2, pkg_id P2) \<and>
     filter (\<lambda>r. row_id r = pkg_id P2) (packages d2) =
       [\<lparr>row_id = pkg_id P2,
         row_ecosystem = pkg_ecosystem P2,
         row_name = pkg_name P2,
         row_purl = pkg_purl P2,
         row_namespace = pkg_namespace P2,
         row_description = pkg_description P2,
         row_homepage = pkg_homepage P2,
         row_repository_url = pkg_repository_url P2,
         row_licenses = pkg_licenses P2,
         row_normalized_licenses = JSON_stringify (pkg_normalized_licenses P2),
         row_latest_version = pkg_latest_release_number P2,
         row_versions_count = pkg_versions_count P2,
         row_downloads = pkg_downloads P2,
         row_downloads_period = pkg_downloads_period P2,
         row_dependent_packages_count = pkg_dependent_packages_count P2,
         row_dependent_repos_count = pkg_dependent_repos_count P2,
         row_first_release_at = pkg_first_release_published_at P2,
         row_latest_release_at = pkg_latest_release_published_at P2,
         row_last_synced_at = pkg_last_synced_at P2,
         row_keywords = map_option (join '' '') (pkg_keywords_array P2),
         row_created_at = Some t2\<rparr>] \<and>
     insertPackage t2 d P2 = Inr (d3, pkg_id P2) \<and>
     (pkg_ecosystem P1 = pkg_ecosystem P2 \<and> pkg_name P1 = pkg_name P2 \<longrightarrow> packages d2 = packages d3)"
proof -
  let ?r1 = "package_row_of t1 P1" and ?r2 = "package_row_of t2 P2"
  let ?d1 = "put_package ?r1 d"
  let ?d2 = "put_package ?r2 ?d1"
  let ?d3 = "put_package ?r2 d"
  have first: "insertPackage t1 d P1 = Inr (?d1, pkg_id P1)"
    by (rule insertPackage_ok [OF assms(2)])
  have "\<not> foreign_key_violated ?d1 (pkg_id P1) (pkg_ecosystem P2) (pkg_name P2)"
    using foreign_key_violated_after [of t1 P1 d "pkg_ecosystem P2" "pkg_name P2"] assms(1,3) by auto
  then have "\<not> foreign_key_violated ?d1 (pkg_id P2) (pkg_ecosystem P2) (pkg_name P2)"
    using assms(1) by simp
  then have second: "insertPackage t2 ?d1 P2 = Inr (?d2, pkg_id P2)"
    by (rule insertPackage_ok)
  have alone: "insertPackage t2 d P2 = Inr (?d3, pkg_id P2)"
    by (rule insertPackage_ok [OF assms(3)])
  have "filter (\<lambda>r. row_id r = pkg_id P2) (filter (\<lambda>old. \<not> conflicts ?r2 old) (packages ?d1)) = []"
    by (auto simp: filter_empty_conv conflicts_def package_row_of_key)
  then have one: "filter (\<lambda>r. row_id r = pkg_id P2) (packages ?d2) = [?r2]"
    by (simp add: packages_put_package [of ?r2] package_row_of_key)
  have same: "pkg_ecosystem P1 = pkg_ecosystem P2 \<and> pkg_name P1 = pkg_name P2 \<longrightarrow> packages ?d2 = packages ?d3"
  proof
    assume key: "pkg_ecosystem P1 = pkg_ecosystem P2 \<and> pkg_name P1 = pkg_name P2"
    have c: "conflicts ?r2 ?r1"
      using assms(1) by (simp add: conflicts_def package_row_of_key)
    have "filter (\<lambda>old. \<not> conflicts ?r2 old) (filter (\<lambda>old. \<not> conflicts ?r1 old) (packages d)) =
          filter (\<lambda>old. \<not> conflicts ?r2 old) (packages d)"
      using key assms(1) by (auto simp: conflicts_def package_row_of_key intro!: filter_cong)
    then show "packages ?d2 = packages ?d3"
      using c by (simp add: packages_put_package)
  qed
  from first second one alone same show ?thesis
    unfolding package_row_of_explicit [of t2 P2] by blast
qed

theorem upsertPackage_last_write_wins_witness:
  "pkg_id lodash_full = pkg_id lodash_changed \<and>
   \<not> foreign_key_violated createDatabase (pkg_id lodash_full) (pkg_ecosystem lodash_full) (pkg_name lodash_full) \<and>
   \<not> foreign_key_violated createDatabase (pkg_id lodash_changed) (pkg_ecosystem lodash_changed) (pkg_name lodash_changed) \<and>
   (\<exists>d1 d2.
      insertPackage ''2024-01-01 00:00:00'' createDatabase lodash_full = Inr (d1, 1) \<and>
      insertPackage ''2024-01-02 00:00:00'' d1 lodash_changed = Inr (d2, 1) \<and>
      map row_description (filter (\<lambda>r. row_id r = 1) (packages d2)) = [Some ''A utility library''] \<and>
      map row_keywords (filter (\<lambda>r. row_id r = 1) (packages d2)) = [Some ''helpers''] \<and>
      map row_purl (filter (\<lambda>r. row_id r = 1) (packages d2)) = [None])"
proof -
  have same: "pkg_id lodash_full = pkg_id lodash_changed"
    by (simp add: lodash_full_def lodash_changed_def)
  have ids: "pkg_id lodash_full = 1" "pkg_id lodash_changed = 1"
    by (simp_all add: lodash_full_def lodash_changed_def lodash_def)
  from upsertPackage_last_write_wins [OF same fresh_store_accepts fresh_store_accepts,
      of "''2024-01-01 00:00:00''" "''2024-01-02 00:00:00''"]
  obtain d1 d2 where run:
    "insertPackage ''2024-01-01 00:00:00'' createDatabase lodash_full = Inr (d1, pkg_id lodash_full)"
    "insertPackage ''2024-01-02 00:00:00'' d1 lodash_changed = Inr (d2, pkg_id lodash_changed)"
    "filter (\<lambda>r. row_id r = pkg_id lodash_changed) (packages d2) =
       [package_row_of ''2024-01-02 00:00:00'' lodash_changed]"
    unfolding package_row_of_explicit [symmetric] by blast
  have cols: "row_description (package_row_of ''2024-01-02 00:00:00'' lodash_changed) = Some ''A utility library''"
    "row_keywords (package_row_of ''2024-01-02 00:00:00'' lodash_changed) = Some ''helpers''"
    "row_purl (package_row_of ''2024-01-02 00:00:00'' lodash_changed) = None"
    by (simp_all add: package_row_of_def lodash_changed_def lodash_def)
  have "insertPackage ''2024-01-01 00:00:00'' createDatabase lodash_full = Inr (d1, 1) \<and>
      insertPackage ''2024-01-02 00:00:00'' d1 lodash_changed = Inr (d2, 1) \<and>
      map row_description (filter (\<lambda>r. row_id r = 1) (packages d2)) = [Some ''A utility library''] \<and>
      map row_keywords (filter (\<lambda>r. row_id r = 1) (packages d2)) = [Some ''helpers''] \<and>
      map row_purl (filter (\<lambda>r. row_id r = 1) (packages d2)) = [None]"
    using run cols by (simp add: ids)
  then have "\<exists>d1 d2.
      insertPackage ''2024-01-01 00:00:00'' createDatabase lodash_full = Inr (d1, 1) \<and>
      insertPackage ''2024-01-02 00:00:00'' d1 lodash_changed = Inr (d2, 1) \<and>
      map row_description (filter (\<lambda>r. row_id r = 1) (packages d2)) = [Some ''A utility library''] \<and>
      map row_keywords (filter (\<lambda>r. row_id r = 1) (packages d2)) = [Some ''helpers''] \<and>
      map row_purl (filter (\<lambda>r. row_id r = 1) (packages d2)) = [None]"
    by (intro exI)
  with same show ?thesis
    using fresh_store_accepts by simp
qed

text \<open>
  Claim C8, as stated, fails on a record whose keyword collection is there and empty: no
  keyword is present, \<open>Array.isArray\<close> holds, and the column gets the empty string that
  \<open>join\<close> returns, not \<open>NULL\<close>.
\<close>

theorem keywords_null_only_when_absent_counterexample:
  "pkg_keywords_array lodash_no_keywords = Some [] \<and>
   insertPackage ''2024-01-01 00:00:00'' createDatabase lodash_no_keywords =
     Inr (put_package (package_row_of ''2024-01-01 00:00:00'' lodash_no_keywords) createDatabase, 1) \<and>
   map_option row_keywords
     (lookup (put_package (package_row_of ''2024-01-01 00:00:00'' lodash_no_keywords) createDatabase)
        ''npm'' ''lodash'') =
     Some (Some '''')"
  using lookup_put_package [of "''2024-01-01 00:00:00''" lodash_no_keywords createDatabase]
    insertPackage_ok [of createDatabase lodash_no_keywords "''2024-01-01 00:00:00''", OF fresh_store_accepts]
  by (simp add: lodash_no_keywords_def lodash_def package_row_of_def)

text \<open>
  Claim C8, amended. The keywords bound to the statement are the space-joined string of the
  keyword collection when the record has one, and \<open>NULL\<close> exactly when it has none (the
  field is missing or \<open>null\<close>); an empty collection gives the empty string. On a store that
  does not refuse the record, \<open>insertPackage\<close> returns and the row then found under the
  ecosystem and name of the record holds that value.
\<close>

theorem keywords_joined_or_null:
  assumes "\<not> foreign_key_violated d (pkg_id P) (pkg_ecosystem P) (pkg_name P)"
  shows "(\<exists>d'. insertPackage now d P = Inr (d', pkg_id P) \<and>
            map_option row_keywords (lookup d' (pkg_ecosystem P) (pkg_name P)) =
              Some (case pkg_keywords_array P of None \<Rightarrow> None | Some ks \<Rightarrow> Some (join '' '' ks))) \<and>
         (row_keywords (package_row_of now P) = None \<longleftrightarrow> pkg_keywords_array P = None) \<and>
         (pkg_keywords_array P = Some [] \<longrightarrow> row_keywords (package_row_of now P) = Some '''')"
proof -
  have "map_option row_keywords (lookup (put_package (package_row_of now P) d) (pkg_ecosystem P) (pkg_name P)) =
      Some (case pkg_keywords_array P of None \<Rightarrow> None | Some ks \<Rightarrow> Some (join '' '' ks))"
    by (simp only: lookup_put_package) (simp add: package_row_of_def split: option.splits)
  then have "\<exists>d'. insertPackage now d P = Inr (d', pkg_id P) \<and>
            map_option row_keywords (lookup d' (pkg_ecosystem P) (pkg_name P)) =
              Some (case pkg_keywords_array P of None \<Rightarrow> None | Some ks \<Rightarrow> Some (join '' '' ks))"
    using insertPackage_ok [OF assms, of now] by blast
  then show ?thesis
    by (simp add: package_row_of_def split: option.splits)
qed

theorem keywords_joined_or_null_witness:
  "\<not> foreign_key_violated createDatabase 1 ''npm'' ''lodash'' \<and>
   (\<exists>d'. insertPackage ''2024-01-01 00:00:00'' createDatabase lodash_full = Inr (d', 1) \<and>
      map_option row_keywords (lookup d' ''npm'' ''lodash'') = Some (Some ''utilities lodash modules'')) \<and>
   (\<exists>d'. insertPackage ''2024-01-01 00:00:00'' createDatabase lodash = Inr (d', 1) \<and>
      map_option row_keywords (lookup d' ''npm'' ''lodash'') = Some None)"
proof -
  show ?thesis
    using keywords_joined_or_null [of createDatabase lodash_full "''2024-01-01 00:00:00''", OF fresh_store_accepts]
      keywords_joined_or_null [of createDatabase lodash "''2024-01-01 00:00:00''", OF fresh_store_accepts]
      fresh_store_accepts [of 1 "''npm''" "''lodash''"]
    by (simp add: lodash_full_def lodash_def)
qed

section \<open>Properties of the upsert of advisories\<close>

lemma uuids_simps:
  "uuids [] = []"
  "uuids (e # es) = (case entry_uuid e of None \<Rightarrow> uuids es | Some u \<Rightarrow> u # uuids es)"
  by (simp_all add: uuids_def List.map_filter_simps split: option.splits)

lemma has_package_put_advisory: "has_package (put_advisory pid u a d) i = has_package d i"
  by (simp add: has_package_def put_advisory_def Let_def)

lemma advisories_of_put_advisory:
  "advisories_of (put_advisory pid u a d) pid =
     filter (\<lambda>r. advr_uuid r \<noteq> u) (advisories_of d pid) @
     [\<lparr>advr_id = Suc (advisories_sequence d), advr_package_id = pid, advr_uuid = u,
       advr_url = adv_url a, advr_title = adv_title a, advr_description = adv_description a,
       advr_severity = adv_severity a, advr_published_at = adv_published_at a,
       advr_cvss_score = adv_cvss_score a\<rparr>]"
proof -
  have "filter (\<lambda>x. (advr_package_id x = pid \<longrightarrow> advr_uuid x \<noteq> u) \<and> advr_package_id x = pid) (advisories d) =
        filter (\<lambda>x. advr_package_id x = pid \<and> advr_uuid x \<noteq> u) (advisories d)"
    by (rule filter_cong) auto
  moreover have "filter (\<lambda>x. advr_uuid x \<noteq> u \<and> advr_package_id x = pid) (advisories d) =
        filter (\<lambda>x. advr_package_id x = pid \<and> advr_uuid x \<noteq> u) (advisories d)"
    by (rule filter_cong) auto
  ultimately show ?thesis
    by (simp add: advisories_of_def put_advisory_def Let_def)
qed

lemma other_advisories_put_advisory:
  "filter (\<lambda>r. advr_package_id r \<noteq> pid) (advisories (put_advisory pid u a d)) =
     filter (\<lambda>r. advr_package_id r \<noteq> pid) (advisories d)"
proof -
  have "filter (\<lambda>x. (advr_package_id x = pid \<longrightarrow> advr_uuid x \<noteq> u) \<and> advr_package_id x \<noteq> pid) (advisories d) =
        filter (\<lambda>r. advr_package_id r \<noteq> pid) (advisories d)"
    by (rule filter_cong) auto
  then show ?thesis
    by (simp add: put_advisory_def Let_def)
qed

text \<open>The loop when the package has its row: the entries and the uuids of its rows afterwards.\<close>

lemma advisories_loop_rows:
  assumes "has_package d pid"
  shows "\<exists>d'. advisories_loop pid as d = Inr d' \<and>
           map row_entry (advisories_of d' pid) =
             map row_entry (filter (\<lambda>r. Some (advr_uuid r) \<notin> set (map entry_uuid as)) (advisories_of d pid))
               @ persisted as \<and>
           map advr_uuid (advisories_of d' pid) = fold put_key (uuids as) (map advr_uuid (advisories_of d pid)) \<and>
           filter (\<lambda>r. advr_package_id r \<noteq> pid) (advisories d') =
             filter (\<lambda>r. advr_package_id r \<noteq> pid) (advisories d)"
  using assms
proof (induction as arbitrary: d)
  case Nil
  then show ?case by (simp add: uuids_simps)
next
  case (Cons e es)
  show ?case
  proof (cases "entry_uuid e")
    case None
    then have skip: "advisories_loop pid (e # es) d = advisories_loop pid es d"
      by (cases e) (auto split: option.splits if_splits)
    have p: "persisted (e # es) = persisted es"
      using None by (cases e) (simp_all add: uuid_bearing_def)
    have f: "filter (\<lambda>r. Some (advr_uuid r) \<notin> set (map entry_uuid (e # es))) (advisories_of d pid) =
             filter (\<lambda>r. Some (advr_uuid r) \<notin> set (map entry_uuid es)) (advisories_of d pid)"
      using None by simp
    show ?thesis
      using Cons.IH [OF Cons.prems] None unfolding skip p f by (simp add: uuids_simps)
  next
    case (Some u)
    then obtain a where e: "e = Some a" and au: "adv_uuid a = Some u" and ne: "u \<noteq> []"
      by (cases e) (auto split: option.splits if_splits)
    let ?d1 = "put_advisory pid u a d"
    have step: "advisories_loop pid (e # es) d = advisories_loop pid es ?d1"
      using e au ne Cons.prems by (simp add: replace_into_advisories_def)
    have hp: "has_package ?d1 pid"
      using Cons.prems by (simp add: has_package_put_advisory)
    from Cons.IH [OF hp] obtain d' where
      run: "advisories_loop pid es ?d1 = Inr d'" and
      rows: "map row_entry (advisories_of d' pid) =
             map row_entry (filter (\<lambda>r. Some (advr_uuid r) \<notin> set (map entry_uuid es)) (advisories_of ?d1 pid))
               @ persisted es" and
      keys: "map advr_uuid (advisories_of d' pid) = fold put_key (uuids es) (map advr_uuid (advisories_of ?d1 pid))" and
      others: "filter (\<lambda>r. advr_package_id r \<noteq> pid) (advisories d') =
             filter (\<lambda>r. advr_package_id r \<noteq> pid) (advisories ?d1)"
      by blast
    have new_entry: "row_entry \<lparr>advr_id = Suc (advisories_sequence d), advr_package_id = pid, advr_uuid = u,
       advr_url = adv_url a, advr_title = adv_title a, advr_description = adv_description a,
       advr_severity = adv_severity a, advr_published_at = adv_published_at a,
       advr_cvss_score = adv_cvss_score a\<rparr> = a"
      using au by (simp add: row_entry_def)
    have f: "filter (\<lambda>r. Some (advr_uuid r) \<notin> set (map entry_uuid es)) (filter (\<lambda>r. advr_uuid r \<noteq> u) (advisories_of d pid)) =
             filter (\<lambda>r. Some (advr_uuid r) \<notin> set (map entry_uuid (e # es))) (advisories_of d pid)"
      using Some by (auto intro!: filter_cong)
    have p: "persisted (e # es) = (if Some u \<notin> set (map entry_uuid es) then [a] else []) @ persisted es"
      using e Some by (simp add: uuid_bearing_def)
    have rows': "map row_entry (advisories_of d' pid) =
             map row_entry (filter (\<lambda>r. Some (advr_uuid r) \<notin> set (map entry_uuid (e # es))) (advisories_of d pid))
               @ persisted (e # es)"
      unfolding rows advisories_of_put_advisory p
      by (simp add: new_entry Some)
    have keys': "map advr_uuid (advisories_of d' pid) =
             fold put_key (uuids (e # es)) (map advr_uuid (advisories_of d pid))"
      unfolding keys advisories_of_put_advisory
      using Some by (simp add: uuids_simps put_key_def filter_map comp_def)
    have others': "filter (\<lambda>r. advr_package_id r \<noteq> pid) (advisories d') =
             filter (\<lambda>r. advr_package_id r \<noteq> pid) (advisories d)"
      unfolding others by (rule other_advisories_put_advisory)
    show ?thesis
      using run rows' keys' others' unfolding step by blast
  qed
qed

lemma set_fold_put_key: "set (fold put_key us ks) = set ks \<union> set us"
  by (induction us arbitrary: ks) (auto simp: put_key_def)

lemma distinct_fold_put_key: "distinct ks \<Longrightarrow> distinct (fold put_key us ks)"
  by (induction us arbitrary: ks) (auto simp: put_key_def)

lemma advisories_loop_skip:
  "advisories_loop pid (filter uuid_bearing as) d = advisories_loop pid as d"
proof (induction as arbitrary: d)
  case Nil
  then show ?case by simp
next
  case (Cons e es)
  show ?case
  proof (cases e)
    case None
    then show ?thesis using Cons by (simp add: uuid_bearing_def)
  next
    case (Some a)
    then show ?thesis
      using Cons by (cases "adv_uuid a") (simp_all add: uuid_bearing_def split: sum.splits)
  qed
qed

lemma length_uuids: "length (uuids as) = length (filter uuid_bearing as)"
  by (induction as) (auto simp: uuids_simps uuid_bearing_def split: option.splits)

lemma advisories_loop_no_package:
  "\<not> has_package d pid \<Longrightarrow> filter uuid_bearing as \<noteq> [] \<Longrightarrow>
   advisories_loop pid as d = Inl Foreign_key_failed"
proof (induction as)
  case Nil
  then show ?case by simp
next
  case (Cons e es)
  then show ?case
    by (cases e) (auto simp: uuid_bearing_def replace_into_advisories_def split: option.splits if_splits)
qed

lemma lodash_stored_no_advisories: "advisories_of lodash_stored 1 = []"
  by (simp add: advisories_of_def lodash_stored_def put_package_def createDatabase_def Let_def)

lemma lodash_readvised_run:
  "insertAdvisories lodash_stored 1 (Some [Some ghsa, Some no_uuid, None, Some ghsa_revised]) =
     Inr lodash_readvised"
proof -
  have "has_package lodash_advised 1"
    using has_package_lodash_stored by (simp add: lodash_advised_def has_package_put_advisory)
  then show ?thesis
    by (simp add: insertAdvisories_def replace_into_advisories_def has_package_lodash_stored
        lodash_advised_def lodash_readvised_def ghsa_def ghsa_revised_def no_uuid_def)
qed

text \<open>
  Claim C4, as stated, fails on a list that names one uuid twice: both entries bear a uuid,
  and the second \<open>INSERT OR REPLACE\<close> replaces the row of the first under the unique index
  on (package_id, uuid). Two uuid-bearing entries leave one row.
\<close>

theorem insertAdvisories_counterexample:
  "has_package lodash_stored 1 \<and>
   advisories_of lodash_stored 1 = [] \<and>
   length (filter uuid_bearing [Some ghsa, Some no_uuid, None, Some ghsa_revised]) = 2 \<and>
   insertAdvisories lodash_stored 1 (Some [Some ghsa, Some no_uuid, None, Some ghsa_revised]) =
     Inr lodash_readvised \<and>
   length (advisories_of lodash_readvised 1) = 1"
proof -
  have "length (filter uuid_bearing [Some ghsa, Some no_uuid, None, Some ghsa_revised]) = 2"
    by (simp add: uuid_bearing_def ghsa_def ghsa_revised_def no_uuid_def)
  moreover have "length (advisories_of lodash_readvised 1) = 1"
    by (simp add: lodash_readvised_def lodash_advised_def advisories_of_put_advisory
        lodash_stored_no_advisories)
  ultimately show ?thesis
    using has_package_lodash_stored lodash_stored_no_advisories lodash_readvised_run by simp
qed

text \<open>
  Claim C4, amended. For a package that has its row and no advisory rows: a missing or empty
  list changes nothing; the entries without a uuid are skipped, the outcome being that of
  the uuid-bearing entries alone; the call returns, and the rows of the package afterwards
  are, column by column and in order, the uuid-bearing entries without those whose uuid a
  later entry bears: a repeated uuid keeps the data of its last entry. So there is one row
  for each distinct uuid, as many rows as uuid-bearing entries when no uuid occurs twice.
  The advisory rows of other packages stay as they are. Without a row of the package the
  first uuid-bearing entry makes the call throw (\<open>insertAdvisories_no_package\<close>).
\<close>

theorem insertAdvisories_persists_last_per_uuid:
  assumes "has_package d packageId" and "advisories_of d packageId = []"
  shows "insertAdvisories d packageId None = Inr d \<and>
         insertAdvisories d packageId (Some []) = Inr d \<and>
         insertAdvisories d packageId (Some (filter uuid_bearing as)) = insertAdvisories d packageId (Some as) \<and>
         (\<exists>d'. insertAdvisories d packageId (Some as) = Inr d' \<and>
               map row_entry (advisories_of d' packageId) = persisted as \<and>
               set (map advr_uuid (advisories_of d' packageId)) = set (uuids as) \<and>
               length (advisories_of d' packageId) = card (set (uuids as)) \<and>
               (distinct (uuids as) \<longrightarrow>
                  length (advisories_of d' packageId) = length (filter uuid_bearing as)) \<and>
               filter (\<lambda>r. advr_package_id r \<noteq> packageId) (advisories d') =
                 filter (\<lambda>r. advr_package_id r \<noteq> packageId) (advisories d))"
proof -
  have run: "insertAdvisories d packageId (Some as) = advisories_loop packageId as d"
    by (cases as) (simp_all add: insertAdvisories_def)
  have skip: "insertAdvisories d packageId (Some (filter uuid_bearing as)) = insertAdvisories d packageId (Some as)"
  proof (cases "filter uuid_bearing as = []")
    case True
    then have "advisories_loop packageId as d = Inr d"
      using advisories_loop_skip [of packageId as d] by simp
    with True run show ?thesis by (simp add: insertAdvisories_def)
  next
    case False
    then show ?thesis
      using advisories_loop_skip [of packageId as d] run by (simp add: insertAdvisories_def)
  qed
  from advisories_loop_rows [OF assms(1), of as] obtain d' where
    loop: "advisories_loop packageId as d = Inr d'" and
    rows: "map row_entry (advisories_of d' packageId) =
             map row_entry (filter (\<lambda>r. Some (advr_uuid r) \<notin> set (map entry_uuid as)) (advisories_of d packageId))
               @ persisted as" and
    keys: "map advr_uuid (advisories_of d' packageId) =
             fold put_key (uuids as) (map advr_uuid (advisories_of d packageId))" and
    others: "filter (\<lambda>r. advr_package_id r \<noteq> packageId) (advisories d') =
             filter (\<lambda>r. advr_package_id r \<noteq> packageId) (advisories d)"
    by blast
  have rows': "map row_entry (advisories_of d' packageId) = persisted as"
    using rows assms(2) by simp
  have keys': "map advr_uuid (advisories_of d' packageId) = fold put_key (uuids as) []"
    using keys assms(2) by simp
  have s: "set (map advr_uuid (advisories_of d' packageId)) = set (uuids as)"
    unfolding keys' by (simp add: set_fold_put_key)
  have dist: "distinct (map advr_uuid (advisories_of d' packageId))"
    unfolding keys' by (rule distinct_fold_put_key) simp
  have "length (map advr_uuid (advisories_of d' packageId)) = card (set (uuids as))"
    using distinct_card [OF dist] s by simp
  then have len: "length (advisories_of d' packageId) = card (set (uuids as))"
    by simp
  have count: "distinct (uuids as) \<longrightarrow> length (advisories_of d' packageId) = length (filter uuid_bearing as)"
    using len distinct_card [of "uuids as"] length_uuids [of as] by auto
  have "\<exists>d'. insertAdvisories d packageId (Some as) = Inr d' \<and>
               map row_entry (advisories_of d' packageId) = persisted as \<and>
               set (map advr_uuid (advisories_of d' packageId)) = set (uuids as) \<and>
               length (advisories_of d' packageId) = card (set (uuids as)) \<and>
               (distinct (uuids as) \<longrightarrow>
                  length (advisories_of d' packageId) = length (filter uuid_bearing as)) \<and>
               filter (\<lambda>r. advr_package_id r \<noteq> packageId) (advisories d') =
                 filter (\<lambda>r. advr_package_id r \<noteq> packageId) (advisories d)"
    using loop rows' s len count others unfolding run by blast
  with skip show ?thesis
    by (simp add: insertAdvisories_def)
qed

theorem insertAdvisories_persists_last_per_uuid_witness:
  "has_package lodash_stored 1 \<and> advisories_of lodash_stored 1 = [] \<and>
   (\<exists>d'. insertAdvisories lodash_stored 1 (Some [Some ghsa, Some no_uuid, None, Some ghsa_revised]) = Inr d' \<and>
      map row_entry (advisories_of d' 1) = [ghsa_revised])"
proof -
  have "persisted [Some ghsa, Some no_uuid, None, Some ghsa_revised] = [ghsa_revised]"
    by (simp add: uuid_bearing_def ghsa_def ghsa_revised_def no_uuid_def)
  then show ?thesis
    using insertAdvisories_persists_last_per_uuid [OF has_package_lodash_stored lodash_stored_no_advisories,
        of "[Some ghsa, Some no_uuid, None, Some ghsa_revised]"]
      has_package_lodash_stored lodash_stored_no_advisories
    by auto
qed

lemma insertAdvisories_no_package:
  "\<not> has_package d packageId \<Longrightarrow> filter uuid_bearing as \<noteq> [] \<Longrightarrow>
   insertAdvisories d packageId (Some as) = Inl Foreign_key_failed"
  using advisories_loop_no_package [of d packageId as]
  by (cases as) (simp_all add: insertAdvisories_def)

section \<open>Properties of the full-text index\<close>

lemma fold_packages_ad_head:
  "\<forall>y\<in>set ys. fts_entry_of y \<noteq> a \<Longrightarrow>
   fold packages_ad ys (a # zs) = a # fold packages_ad ys zs"
  by (induction ys arbitrary: zs) (simp_all add: packages_ad_def)

lemma fold_packages_ad_deleted:
  "distinct (map fts_entry_of rows) \<Longrightarrow>
   fold packages_ad (filter C rows) (map fts_entry_of rows) =
     map fts_entry_of (filter (\<lambda>r. \<not> C r) rows)"
proof (induction rows)
  case Nil
  then show ?case by simp
next
  case (Cons r rows)
  show ?case
  proof (cases "C r")
    case True
    then show ?thesis using Cons by (simp add: packages_ad_def)
  next
    case False
    have "\<forall>y\<in>set (filter C rows). fts_entry_of y \<noteq> fts_entry_of r"
      using Cons.prems by (metis (mono_tags, lifting) distinct.simps(2) filter_is_subset image_eqI list.simps(9) list.set_map subsetD)
    then show ?thesis
      using False Cons by (simp add: fold_packages_ad_head)
  qed
qed

lemma distinct_entries:
  assumes "distinct (map row_id rows)"
  shows "distinct (map fts_entry_of rows)"
proof -
  have "map row_id rows = map fts_rowid (map fts_entry_of rows)"
    by (simp add: fts_entry_of_def)
  with assms show ?thesis
    by (metis distinct_map)
qed

lemma distinct_ids_put_package:
  "distinct (map row_id (packages d)) \<Longrightarrow> distinct (map row_id (packages (put_package new d)))"
  by (auto simp: packages_put_package conflicts_def distinct_map_filter)

lemma fts_in_sync_createDatabase: "fts_in_sync createDatabase"
  by (simp add: fts_in_sync_def createDatabase_def)

lemma fts_in_sync_fresh_insert:
  assumes "fts_in_sync d"
    and "\<forall>r\<in>set (packages d). \<not> conflicts (package_row_of now P) r"
  shows "\<exists>d'. insertPackage now d P = Inr (d', pkg_id P) \<and> fts_in_sync d'"
proof -
  have none: "filter (conflicts (package_row_of now P)) (packages d) = []"
    using assms(2) by (simp add: filter_empty_conv)
  have all: "filter (\<lambda>old. \<not> conflicts (package_row_of now P) old) (packages d) = packages d"
    using assms(2) by (simp add: filter_id_conv)
  have "\<not> foreign_key_violated d (pkg_id P) (pkg_ecosystem P) (pkg_name P)"
    using assms(2) by (auto simp: foreign_key_violated_def list_ex_iff conflicts_def package_row_of_key)
  then have "insertPackage now d P = Inr (put_package (package_row_of now P) d, pkg_id P)"
    by (rule insertPackage_ok)
  moreover have "fts_in_sync (put_package (package_row_of now P) d)"
    using assms(1) none all by (simp add: fts_in_sync_def put_package_def Let_def packages_ai_def)
  ultimately show ?thesis by blast
qed

lemma fts_in_sync_recursive_triggers:
  assumes "fts_in_sync d" and "distinct (map row_id (packages d))" and "recursive_triggers d"
  shows "fts_in_sync (put_package new d)"
  using assms fold_packages_ad_deleted [OF distinct_entries [OF assms(2)], of "conflicts new"]
  by (simp add: fts_in_sync_def put_package_def Let_def packages_ai_def)

lemma filter_row_id:
  "distinct (map row_id rows) \<Longrightarrow> r \<in> set rows \<Longrightarrow> filter (\<lambda>p. row_id p = row_id r) rows = [r]"
proof (induction rows)
  case Nil
  then show ?case by simp
next
  case (Cons a rows)
  show ?case
  proof (cases "a = r")
    case True
    have "\<forall>p\<in>set rows. row_id p \<noteq> row_id r"
      using Cons.prems(1) True by (metis distinct.simps(2) image_eqI list.simps(9) list.set_map)
    then have "filter (\<lambda>p. row_id p = row_id r) rows = []"
      by (simp add: filter_empty_conv)
    with True show ?thesis by simp
  next
    case False
    then have "r \<in> set rows" using Cons.prems(2) by simp
    moreover have "row_id a \<noteq> row_id r"
      using Cons.prems(1) \<open>r \<in> set rows\<close> by auto
    ultimately show ?thesis
      using Cons by simp
  qed
qed

lemma concat_singletons: "concat (map (\<lambda>r. if Q r then [r] else []) rows) = filter Q rows"
  by (induction rows) simp_all

lemma search_in_sync:
  assumes "fts_in_sync d" and "distinct (map row_id (packages d))"
  shows "search d token = filter (\<lambda>p. token \<in> set (entry_tokens (fts_entry_of p))) (packages d)"
proof -
  have one: "\<And>r. r \<in> set (packages d) \<Longrightarrow>
      (if token \<in> set (entry_tokens (fts_entry_of r))
       then filter (\<lambda>p. row_id p = fts_rowid (fts_entry_of r)) (packages d) else []) =
      (if token \<in> set (entry_tokens (fts_entry_of r)) then [r] else [])"
    using filter_row_id [OF assms(2)] by (simp add: fts_entry_of_def)
  have "search d token =
      concat (map (\<lambda>r. if token \<in> set (entry_tokens (fts_entry_of r)) then [r] else []) (packages d))"
    using assms(1) one by (simp add: search_def fts_in_sync_def comp_def cong: map_cong)
  also have "\<dots> = filter (\<lambda>p. token \<in> set (entry_tokens (fts_entry_of p))) (packages d)"
    by (rule concat_singletons)
  finally show ?thesis .
qed

lemma tokenize_examples:
  "tokenize ''utilities lodash modules'' = [''utilities'', ''lodash'', ''modules'']"
  "tokenize ''Lodash modular utilities'' = [''lodash'', ''modular'', ''utilities'']"
  "tokenize ''A utility library'' = [''a'', ''utility'', ''library'']"
  "tokenize ''helpers'' = [''helpers'']"
  "tokenize ''npm'' = [''npm'']"
  "tokenize ''lodash'' = [''lodash'']"
  by (simp_all add: tokenize_def token_char_def lower_char_def upper_letters_def lower_letters_def digits_def)

lemma upsert_twice_run:
  "insertPackage ''2024-01-02 00:00:00'' lodash_stored lodash_changed = Inr (upsert_twice, 1)"
proof -
  have "\<not> foreign_key_violated lodash_stored (pkg_id lodash_changed) (pkg_ecosystem lodash_changed) (pkg_name lodash_changed)"
    by (simp add: foreign_key_violated_def lodash_stored_def put_package_def createDatabase_def
        package_row_of_def lodash_full_def lodash_changed_def lodash_def Let_def)
  then show ?thesis
    using insertPackage_ok [of lodash_stored lodash_changed "''2024-01-02 00:00:00''"]
    by (simp add: upsert_twice_def lodash_changed_def lodash_def)
qed

text \<open>
  What holds of the index. It is in step with the table in a fresh store and stays so when
  \<open>insertPackage\<close> replaces no row (\<open>fts_in_sync_fresh_insert\<close>); it would stay so on every
  write of a package row if the connection had recursive triggers on
  (\<open>fts_in_sync_recursive_triggers\<close>); and while it is in step a search returns exactly the
  packages whose indexed columns hold the token (\<open>search_in_sync\<close>).

  Claim C5 fails on the one path by which the pipeline changes a package row. The three
  triggers are there, but \<open>insertPackage\<close> changes a row through \<open>INSERT OR REPLACE\<close>:
  the old row is deleted by the conflict resolution, for which \<open>packages_ad\<close> does not fire
  with recursive triggers off, and no statement of the pipeline is an \<open>UPDATE\<close>. The entry of
  the old row stays in the index. A package is stored with the keyword \<open>modules\<close> and found
  by it; it is stored again without that keyword; the search for \<open>modules\<close> still returns the
  package, whose keywords are now \<open>helpers\<close>.
\<close>

theorem stale_index_after_replace:
  "insertPackage ''2024-01-01 00:00:00'' createDatabase lodash_full = Inr (lodash_stored, 1) \<and>
   map row_keywords (search lodash_stored ''modules'') = [Some ''utilities lodash modules''] \<and>
   insertPackage ''2024-01-02 00:00:00'' lodash_stored lodash_changed = Inr (upsert_twice, 1) \<and>
   map row_keywords (packages upsert_twice) = [Some ''helpers''] \<and>
   map row_keywords (search upsert_twice ''modules'') = [Some ''helpers'']"
proof -
  have "map row_keywords (search lodash_stored ''modules'') = [Some ''utilities lodash modules''] \<and>
   map row_keywords (packages upsert_twice) = [Some ''helpers''] \<and>
   map row_keywords (search upsert_twice ''modules'') = [Some ''helpers'']"
    by (simp add: upsert_twice_def lodash_stored_def search_def put_package_def createDatabase_def
      packages_ai_def fts_entry_of_def entry_tokens_def tokenize_examples conflicts_def
      package_row_of_def lodash_full_def lodash_changed_def lodash_def)
  then show ?thesis
    using lodash_stored_run upsert_twice_run by simp
qed

section \<open>Properties of the build\<close>


























section \<open>Properties of the ecosystem table\<close>

lemma lower_char_idem: "lower_char (lower_char c) = lower_char c"
  unfolding lower_char_def upper_letters_def lower_letters_def
  by simp

lemma lower_char_eq_high:
  "lower_char c = x \<Longrightarrow> x \<in> {CHR 0xE2, CHR 0x84, CHR 0xAA} \<Longrightarrow> c = x"
  unfolding lower_char_def upper_letters_def lower_letters_def
  by (auto split: if_splits)

lemma toLowerCase_take2:
  assumes h: "take 2 (toLowerCase s) = [CHR 0x84, CHR 0xAA]"
  shows "take 2 s = [CHR 0x84, CHR 0xAA]"
proof (cases s)
  case Nil
  with h show ?thesis by simp
next
  case (Cons a t)
  show ?thesis
  proof (cases t)
    case Nil
    with Cons h show ?thesis by (simp split: if_splits)
  next
    case (Cons b u)
    with \<open>s = a # t\<close> h show ?thesis
      by (auto split: if_splits dest: lower_char_eq_high simp: take_Suc_conv_app_nth numeral_2_eq_2)
  qed
qed

lemma toLowerCase_idem: "toLowerCase (toLowerCase s) = toLowerCase s"
proof (induction s rule: toLowerCase.induct)
  case 1
  then show ?case by simp
next
  case (2 c cs)
  show ?case
  proof (cases "c = CHR 0xE2 \<and> take 2 cs = [CHR 0x84, CHR 0xAA]")
    case True
    then show ?thesis using 2 by (simp add: lower_char_def upper_letters_def lower_letters_def)
  next
    case False
    have nk: "\<not> (lower_char c = CHR 0xE2 \<and> take 2 (toLowerCase cs) = [CHR 0x84, CHR 0xAA])"
      using False lower_char_eq_high [of c "CHR 0xE2"] toLowerCase_take2 [of cs] by auto
    have ih: "toLowerCase (toLowerCase cs) = toLowerCase cs"
      using False 2(2) by blast
    have "toLowerCase (c # cs) = lower_char c # toLowerCase cs"
      using False by auto
    moreover have "toLowerCase (lower_char c # toLowerCase cs) = lower_char (lower_char c) # toLowerCase (toLowerCase cs)"
      using nk by auto
    ultimately show ?thesis by (simp only: ih lower_char_idem)
  qed
qed

lemma ecosystemToRegistry_case_insensitive:
  "ecosystemToRegistry (toLowerCase s) = ecosystemToRegistry s"
  by (simp add: ecosystemToRegistry_def toLowerCase_idem)

lemma registry_map_keys: "length registry_map = 16 \<and> distinct (map fst registry_map)"
  by (simp add: registry_map_def)

lemma ecosystemToRegistry_Null_iff:
  "ecosystemToRegistry s = Null \<longleftrightarrow>
     toLowerCase s \<notin> set (map fst registry_map) \<and> toLowerCase s \<notin> set Object_prototype"
proof (cases "map_of registry_map (toLowerCase s)")
  case None
  then have "toLowerCase s \<notin> set (map fst registry_map)"
    by (simp add: map_of_eq_None_iff)
  with None show ?thesis
    by (simp add: ecosystemToRegistry_def get_property_def)
next
  case (Some r)
  then have in_map: "toLowerCase s \<in> set (map fst registry_map)"
    by (metis map_of_eq_None_iff option.distinct(1) set_map)
  have "(toLowerCase s, r) \<in> set registry_map"
    using Some by (rule map_of_SomeD)
  then have "r \<noteq> []"
    by (auto simp: registry_map_def)
  with Some in_map show ?thesis
    by (simp add: ecosystemToRegistry_def get_property_def)
qed

lemma fetchVersionNumbers_no_mapping:
  "ecosystemToRegistry ecosystem = Null \<Longrightarrow> fetchVersionNumbers remote ecosystem name = (Inr [], [])"
  by (simp add: fetchVersionNumbers_def)

text \<open>
  Claim C10 holds for case folding (\<open>ecosystemToRegistry_case_insensitive\<close>), for the
  sixteen keys (\<open>registry_map_keys\<close>) and for what follows from the no-mapping value
  (\<open>fetchVersionNumbers_no_mapping\<close>), but not every string outside the sixteen keys maps
  to that value: \<open>map[key]\<close> also finds the members of \<open>Object.prototype\<close>, and the
  lower-case names among them, \<open>constructor\<close> and \<open>__proto__\<close>, are truthy. For the
  ecosystem \<open>constructor\<close> the result is the \<open>Object\<close> function and
  \<open>fetchVersionNumbers\<close> issues a request with that function printed into the URL.
\<close>

theorem ecosystemToRegistry_inherited_property:
  "''constructor'' \<notin> set (map fst registry_map) \<and>
   ecosystemToRegistry ''constructor'' = Inherited ''constructor'' \<and>
   fetchVersionNumbers unreachable ''constructor'' (Well_formed ''lodash'') =
     (Inr [], [Request ''https://packages.ecosyste.ms/api/v1/registries/function Object() { [native code] }/packages/lodash/version_numbers''])"
  by (simp add: fetchVersionNumbers_def fetchJson_def unreachable_def versions_url_def API_BASE_def
        percent_encode_def unreserved_def hex_upper_def digits_def
        ecosystemToRegistry_def get_property_def registry_map_def Object_prototype_def
        lower_char_def upper_letters_def lower_letters_def)

end
